theory Spec2Isabelle
  imports Main "HOL-Library.FSet" "HOL-Library.Multiset" "HOL-Library.Sublist" "HOL-Library.Word"
begin

section \<open>The IR v10 serializer of serialize.cpp\<close>

text \<open>
  A shallow embedding of \<^verbatim>\<open>transformations/serialize.cpp\<close>: the pass that writes an
  nGraph function as an IR v10 document (xml) and a side file of constant data (bin).
  Every function of the file is a HOL function of the same name, but
  \<^verbatim>\<open>run_on_function\<close>: it opens the two files around one call of \<open>ngfunction_2_irv10\<close>
  and saves the document, and is not modelled. A failed \<^verbatim>\<open>NGRAPH_CHECK\<close> (an exception
  of type CheckFailure) is the value \<open>Inl\<close> of a sum.
\<close>

subsection \<open>Errors\<close>

datatype error =
    CheckFailure string    \<comment> \<open>\<^verbatim>\<open>NGRAPH_CHECK(cond, message)\<close> with a false condition\<close>
  | AssertFailure string   \<comment> \<open>\<^verbatim>\<open>assert(cond)\<close> with a false condition\<close>
  | Unreachable string     \<comment> \<open>\<^verbatim>\<open>NGRAPH_UNREACHABLE(message)\<close>\<close>
  | OutOfRange string      \<comment> \<open>an index beyond a container\<close>

subsection \<open>Strings\<close>

text \<open>
  \<^verbatim>\<open>std::string\<close> is a list of bytes. \<^verbatim>\<open>std::to_string\<close> on a non-negative \<^verbatim>\<open>int\<close>
  is the decimal numeral without leading zeros; on a negative one, a minus sign and the
  numeral of the absolute value.
\<close>

definition digit_char :: "nat \<Rightarrow> char" where
  "digit_char d = ''0123456789'' ! d"

function to_string :: "nat \<Rightarrow> string" where
  "to_string n = (if n < 10 then [digit_char n] else to_string (n div 10) @ [digit_char (n mod 10)])"
  by pat_completeness auto

termination
  by (relation "measure id") auto

declare to_string.simps [simp del]

definition to_string_int :: "int \<Rightarrow> string" where
  "to_string_int i = (if i < 0 then CHR ''-'' # to_string (nat (- i)) else to_string (nat i))"

definition quoted :: "string \<Rightarrow> string" where
  "quoted s = [CHR 0x22] @ s @ [CHR 0x22]"

text \<open>
  \<^verbatim>\<open>s.rfind(pat)\<close>: the greatest position at which \<open>pat\<close> occurs in \<open>s\<close>, and
  \<^verbatim>\<open>npos\<close> (here \<open>None\<close>) when there is none. The search starts at
  \<open>size s - size pat\<close> and walks down to position 0.
\<close>

fun rfind_from :: "string \<Rightarrow> string \<Rightarrow> nat \<Rightarrow> nat option" where
  "rfind_from s pat 0 = (if take (length pat) s = pat then Some 0 else None)"
| "rfind_from s pat (Suc i) =
     (if take (length pat) (drop (Suc i) s) = pat then Some (Suc i) else rfind_from s pat i)"

definition rfind :: "string \<Rightarrow> string \<Rightarrow> nat option" where
  "rfind s pat = (if length s < length pat then None else rfind_from s pat (length s - length pat))"

text \<open>
  \<^verbatim>\<open>s.replace(pos, len, str)\<close> for \<open>pos \<le> size s\<close>: the characters \<open>[pos, pos + len)\<close>
  make room for \<open>str\<close>.
\<close>

definition replace :: "string \<Rightarrow> nat \<Rightarrow> nat \<Rightarrow> string \<Rightarrow> string" where
  "replace s pos len str = take pos s @ str @ drop (pos + len) s"

subsection \<open>Op sets and the pass object\<close>

text \<open>
  A node type is identified by its type info (name and version); an \<^verbatim>\<open>ngraph::OpSet\<close> is
  a set of type infos. The custom op sets are a \<^verbatim>\<open>std::map\<close> from name to op set: the
  list of its entries in iteration order.
\<close>

type_synonym NodeTypeInfo = "string \<times> nat"

type_synonym OpSet = "NodeTypeInfo set"

datatype Version = IR_V10

record Serialize =
  m_xmlPath :: string
  m_binPath :: string
  m_version :: Version
  m_custom_opsets :: "(string \<times> OpSet) list"

subsection \<open>Output paths\<close>

definition valid_xml_path :: "string \<Rightarrow> error + string" where
  "valid_xml_path path =
     (if \<not> length path > 4
      then Inl (CheckFailure (''Path for xml file is to short: '' @ quoted path))
      else
        let extension = ''.xml'';
            has_xml_extension = (rfind path extension = Some (length path - length extension))
        in if \<not> has_xml_extension
           then Inl (CheckFailure
             (''Path for xml file doesn't contains file name with 'xml' extension: '' @ quoted path))
           else Inr path)"

definition provide_bin_path :: "string \<Rightarrow> string \<Rightarrow> error + string" where
  "provide_bin_path xmlPath binPath =
     (if binPath \<noteq> [] then Inr binPath
      else if \<not> length xmlPath > 4 then Inl (AssertFailure ''xmlPath.size() > 4'')
      else
        let bestPath = xmlPath;
            extension = ''bin'';
            ext_size = length extension
        in Inr (replace bestPath (length bestPath - ext_size) ext_size extension))"

text \<open>
  The constructor initialises the members in their order: the xml path is validated
  first, then the bin path is provided. It takes and returns no file system: it opens no
  file. Files are opened by \<^verbatim>\<open>run_on_function\<close>, which needs the constructed object.
\<close>

definition Serialize_ctor ::
  "string \<Rightarrow> string \<Rightarrow> Version \<Rightarrow> (string \<times> OpSet) list \<Rightarrow> error + Serialize" where
  "Serialize_ctor xmlPath binPath version custom_opsets =
     (case valid_xml_path xmlPath of
        Inl e \<Rightarrow> Inl e
      | Inr xp \<Rightarrow>
          (case provide_bin_path xmlPath binPath of
             Inl e \<Rightarrow> Inl e
           | Inr bp \<Rightarrow>
               Inr \<lparr>m_xmlPath = xp, m_binPath = bp, m_version = version,
                    m_custom_opsets = custom_opsets\<rparr>))"

subsection \<open>The graph\<close>

text \<open>
  The classes of nGraph are declared outside this file; the model holds what the
  serializer reads of them. A node is known by its address (\<^verbatim>\<open>ngraph::Node*\<close>), and the
  heap gives the node at each address. An \<^verbatim>\<open>Output<Node>\<close> is a node and the index of one
  of its outputs; each input of a node holds its source output.
\<close>

type_synonym node_ptr = nat

type_synonym Output = "node_ptr \<times> nat"

type_synonym byte = "8 word"

text \<open>
  A \<^verbatim>\<open>double\<close> and a \<^verbatim>\<open>float\<close> are their 64 and 32 bits; the file does no arithmetic on
  them.
\<close>

type_synonym double = "64 word"

type_synonym float = "32 word"

text \<open>
  The element types: the cases of the switch in \<open>get_output_precision_name\<close>, and
  \<open>dynamic_t\<close>, the one value of the enumeration that the switch leaves to its default.
\<close>

datatype Type_t =
  undefined_t | dynamic_t | boolean | bf16 | f16 | f32 | f64
  | i8 | i16 | i32 | i64 | u1 | u8 | u16 | u32 | u64

text \<open>
  Modelled from the spec: \<^verbatim>\<open>ngraph::Dimension\<close> and \<^verbatim>\<open>ngraph::PartialShape\<close>, which this
  file only uses. "Each dimension is either a concrete size or an interval with an
  optional upper bound": a dimension is an interval of lengths, from \<open>get_min_length\<close> to
  \<open>max_bound\<close>, where \<open>None\<close> is no declared upper bound. It is static when the
  interval is one length. A shape has a dynamic rank, or a list of dimensions.
\<close>

datatype Dimension = Dimension (get_min_length: nat) (max_bound: "nat option")

definition Dimension_is_static :: "Dimension \<Rightarrow> bool" where
  "Dimension_is_static d \<longleftrightarrow> max_bound d = Some (get_min_length d)"

definition Dimension_is_dynamic :: "Dimension \<Rightarrow> bool" where
  "Dimension_is_dynamic d \<longleftrightarrow> \<not> Dimension_is_static d"

datatype PartialShape = RankDynamic | RankStatic "Dimension list"

definition rank_is_dynamic :: "PartialShape \<Rightarrow> bool" where
  "rank_is_dynamic shape = (case shape of RankDynamic \<Rightarrow> True | RankStatic ds \<Rightarrow> False)"

definition PartialShape_is_static :: "PartialShape \<Rightarrow> bool" where
  "PartialShape_is_static shape =
     (case shape of RankDynamic \<Rightarrow> False | RankStatic ds \<Rightarrow> list_all Dimension_is_static ds)"

definition PartialShape_is_dynamic :: "PartialShape \<Rightarrow> bool" where
  "PartialShape_is_dynamic shape \<longleftrightarrow> \<not> PartialShape_is_static shape"

text \<open>\<^verbatim>\<open>get_shape()\<close> of a static shape: the lengths of its dimensions.\<close>

definition get_shape :: "PartialShape \<Rightarrow> nat list" where
  "get_shape shape = (case shape of RankDynamic \<Rightarrow> [] | RankStatic ds \<Rightarrow> map get_min_length ds)"

record Tensor =
  element_type :: Type_t
  partial_shape :: PartialShape

text \<open>
  The attribute kinds an \<^verbatim>\<open>AttributeVisitor\<close> is called with: one per overload of
  \<open>on_adapter\<close>. A \<^verbatim>\<open>ValueAccessor<void*>\<close> is the adapter of an aligned buffer (with the
  bytes of the buffer) or some other adapter.
\<close>

datatype VoidPtrAdapter = AlignedBufferAdapter "byte list" | OtherVoidPtrAdapter

datatype AttributeValue =
    AVoid
  | AVoidPtr VoidPtrAdapter
  | ABool bool
  | AString string
  | AInt64 int
  | ADouble double
  | AInt64Vector "int list"
  | AUInt64Vector "nat list"
  | AFloatVector "float list"
  | AStringVector "string list"

text \<open>
  A runtime-info entry is a \<^verbatim>\<open>shared_ptr<Variant>\<close>: the cast to
  \<^verbatim>\<open>VariantImpl<std::string>\<close> gives a string or fails.
\<close>

datatype Variant = VariantString string | VariantOther

record Function =
  get_ordered_ops :: "node_ptr list"   \<comment> \<open>the nodes in topological order\<close>
  get_ops :: "node_ptr list"           \<comment> \<open>the nodes\<close>
  get_friendly_name :: string

text \<open>
  The class of a node, as far as the casts of this file ask: \<^verbatim>\<open>op::is_parameter\<close>,
  \<^verbatim>\<open>op::is_output\<close> (a Result), and the cast to \<^verbatim>\<open>op::util::SubGraphOp\<close>, which owns a
  function.
\<close>

datatype op_class = ParameterOp | ResultOp | SubGraphOp Function | OtherOp

record Node =
  type_info :: NodeTypeInfo
  friendly_name :: string
  node_class :: op_class
  inputs :: "Output list"              \<comment> \<open>the source output of each input\<close>
  outputs :: "Tensor list"
  attributes :: "(string \<times> AttributeValue) list"
  \<comment> \<open>what \<^verbatim>\<open>visit_attributes\<close> hands to the visitor, in order\<close>
  visit_attributes_result :: bool      \<comment> \<open>what \<^verbatim>\<open>visit_attributes\<close> returns\<close>
  rt_info :: "(string \<times> Variant) list" \<comment> \<open>a \<^verbatim>\<open>std::map\<close>: its entries in iteration order\<close>

type_synonym heap = "node_ptr \<Rightarrow> Node"

definition get_type_name :: "Node \<Rightarrow> string" where
  "get_type_name n = fst (type_info n)"

definition get_input_size :: "Node \<Rightarrow> nat" where
  "get_input_size n = length (inputs n)"

definition get_output_size :: "Node \<Rightarrow> nat" where
  "get_output_size n = length (outputs n)"

definition is_parameter :: "Node \<Rightarrow> bool" where
  "is_parameter n \<longleftrightarrow> node_class n = ParameterOp"

definition is_output :: "Node \<Rightarrow> bool" where
  "is_output n \<longleftrightarrow> node_class n = ResultOp"

definition contains_op_type :: "OpSet \<Rightarrow> Node \<Rightarrow> bool" where
  "contains_op_type opset n \<longleftrightarrow> type_info n \<in> opset"

text \<open>
  Modelled from the spec: \<^verbatim>\<open>Node::is_dynamic()\<close>, which the shape resolver asks of every
  node: whether the node "has a dynamic output".
\<close>

definition is_dynamic :: "Node \<Rightarrow> bool" where
  "is_dynamic n \<longleftrightarrow> list_ex (\<lambda>t. PartialShape_is_dynamic (partial_shape t)) (outputs n)"

text \<open>
  \<^verbatim>\<open>set_output_type(i, element_type, shape)\<close> writes the tensor of output \<open>i\<close>; the outputs
  grow (by default tensors) when \<open>i\<close> is beyond them.
\<close>

definition default_tensor :: Tensor where
  "default_tensor = \<lparr>element_type = dynamic_t, partial_shape = RankDynamic\<rparr>"

definition set_tensor :: "Tensor list \<Rightarrow> nat \<Rightarrow> Tensor \<Rightarrow> Tensor list" where
  "set_tensor ts i t =
     (if i < length ts then ts[i := t] else ts @ replicate (i - length ts) default_tensor @ [t])"

definition set_output_type :: "heap \<Rightarrow> node_ptr \<Rightarrow> nat \<Rightarrow> Type_t \<Rightarrow> PartialShape \<Rightarrow> heap" where
  "set_output_type h n i et shape =
     h(n := (h n)\<lparr>outputs := set_tensor (outputs (h n)) i
                     \<lparr>element_type = et, partial_shape = shape\<rparr>\<rparr>)"

text \<open>
  The tensor behind an \<^verbatim>\<open>Output<Node>\<close>. An index beyond the outputs of the node does not
  occur in a graph nGraph has built; the model makes it an error.
\<close>

definition get_tensor :: "heap \<Rightarrow> Output \<Rightarrow> error + Tensor" where
  "get_tensor h out =
     (case out of (n, i) \<Rightarrow>
        if i < length (outputs (h n)) then Inr (outputs (h n) ! i)
        else Inl (OutOfRange ''output index''))"

subsection \<open>The document\<close>

text \<open>
  A \<^verbatim>\<open>pugi::xml_node\<close>: an element with a name, its attributes in the order they were
  appended (a name may repeat), and its children; or character data. An attribute value
  is what \<^verbatim>\<open>set_value\<close> was given: pugixml renders it when the document is saved.
\<close>

datatype xml_value = XBool bool | XInt int | XDouble double | XString string

datatype xml_node =
    Element (xml_name: string) (xml_attributes: "(string \<times> xml_value) list")
      (xml_children: "xml_node list")
  | PCData string

record Edge =
  from_layer :: int
  from_port :: int
  to_layer :: int
  to_port :: int

subsection \<open>The library\<close>

text \<open>
  What the file calls and does not define is a parameter of the model:
  the five built-in op sets; the formatting of a \<^verbatim>\<open>float\<close> by a stream; \<^verbatim>\<open>std::sort\<close>;
  the cloning of a function; type and shape inference on a node and on a function;
  constant folding of a node (the replacement outputs when it succeeds, and the heap
  with the new constants); the rewiring \<^verbatim>\<open>Output::replace\<close>; and the dimension
  \<^verbatim>\<open>Dimension(d.get_max_length())\<close> for a dimension \<open>d\<close> with no declared upper bound.
\<close>

record library =
  get_opset1 :: OpSet
  get_opset2 :: OpSet
  get_opset3 :: OpSet
  get_opset4 :: OpSet
  get_opset5 :: OpSet
  show_float :: "float \<Rightarrow> string"
  std_sort :: "(Edge \<Rightarrow> Edge \<Rightarrow> bool) \<Rightarrow> Edge list \<Rightarrow> Edge list"
  clone_function :: "heap \<Rightarrow> Function \<Rightarrow> heap \<times> Function"
  validate_and_infer_types :: "heap \<Rightarrow> node_ptr \<Rightarrow> error + heap"
  validate_nodes_and_infer_types :: "heap \<Rightarrow> Function \<Rightarrow> error + heap"
  constant_fold :: "heap \<Rightarrow> node_ptr \<Rightarrow> (heap \<times> Output list) option"
  output_replace :: "heap \<Rightarrow> Output \<Rightarrow> Output \<Rightarrow> heap"
  unbounded_max_dimension :: Dimension

text \<open>
  The contract of \<^verbatim>\<open>std::sort(first, last, comp)\<close>: the result \<open>ys\<close> is a permutation of
  the input \<open>xs\<close>, and no element is followed by one that the comparison puts before it. The
  order of equivalent elements is not part of the contract.
\<close>

definition std_sort_post :: "('a \<Rightarrow> 'a \<Rightarrow> bool) \<Rightarrow> 'a list \<Rightarrow> 'a list \<Rightarrow> bool" where
  "std_sort_post cmp xs ys \<longleftrightarrow> mset ys = mset xs \<and> sorted_wrt (\<lambda>a b. \<not> cmp b a) ys"

subsection \<open>Type names and attribute lists\<close>

definition translate_type_name_translator :: "(string \<times> string) list" where
  "translate_type_name_translator =
     [(''Constant'', ''Const''), (''Relu'', ''ReLU''), (''Softmax'', ''SoftMax'')]"

definition translate_type_name :: "string \<Rightarrow> string" where
  "translate_type_name name =
     (case map_of translate_type_name_translator name of
        Some found \<Rightarrow> found
      | None \<Rightarrow> name)"

text \<open>
  \<open>join\<close>: the elements as the stream prints them (the first argument), with the glue
  before every element but the first.
\<close>

primrec join_loop :: "('a \<Rightarrow> string) \<Rightarrow> string \<Rightarrow> string \<Rightarrow> 'a list \<Rightarrow> string" where
  "join_loop shw glue s [] = []"
| "join_loop shw glue s (v # c) = s @ shw v @ join_loop shw glue glue c"

definition join :: "('a \<Rightarrow> string) \<Rightarrow> 'a list \<Rightarrow> string" where
  "join shw c = join_loop shw '', '' [] c"

subsection \<open>The attribute visitor\<close>

text \<open>
  The visitor holds references to the \<open>data\<close> element of the layer (only attributes
  are appended to it: the model keeps its attribute list), to the binary stream and to
  the type name of the node. The stream is written at its end only, so \<^verbatim>\<open>tellp()\<close> is
  the number of bytes written so far; a failing stream is not modelled.
\<close>

record XmlSerializer =
  m_xml_node :: "(string \<times> xml_value) list"
  m_bin_data :: "byte list"
  m_node_type_name :: string

definition append_attribute ::
  "string \<Rightarrow> xml_value \<Rightarrow> (string \<times> xml_value) list \<Rightarrow> (string \<times> xml_value) list" where
  "append_attribute name v attrs = attrs @ [(name, v)]"

definition on_adapter_void :: "string \<Rightarrow> XmlSerializer \<Rightarrow> XmlSerializer" where
  "on_adapter_void name v = v"

definition on_adapter_void_ptr :: "string \<Rightarrow> VoidPtrAdapter \<Rightarrow> XmlSerializer \<Rightarrow> XmlSerializer" where
  "on_adapter_void_ptr name adapter v =
     (if name = ''value'' \<and> translate_type_name (m_node_type_name v) = ''Const'' then
        (case adapter of
           AlignedBufferAdapter a \<Rightarrow>
             let size = int (length a);
                 offset = int (length (m_bin_data v));
                 node1 = append_attribute ''offset'' (XInt offset) (m_xml_node v);
                 node2 = append_attribute ''size'' (XInt size) node1
             in v\<lparr>m_xml_node := node2, m_bin_data := m_bin_data v @ take (nat size) a\<rparr>
         | OtherVoidPtrAdapter \<Rightarrow> v)
      else v)"

definition on_adapter_bool :: "string \<Rightarrow> bool \<Rightarrow> XmlSerializer \<Rightarrow> XmlSerializer" where
  "on_adapter_bool name b v = v\<lparr>m_xml_node := append_attribute name (XBool b) (m_xml_node v)\<rparr>"

definition on_adapter_string :: "string \<Rightarrow> string \<Rightarrow> XmlSerializer \<Rightarrow> XmlSerializer" where
  "on_adapter_string name str v =
     (if m_node_type_name v = ''GenericIE'' \<and> name = ''__generic_ie_type__''
      then v\<lparr>m_node_type_name := str\<rparr>
      else v\<lparr>m_xml_node := append_attribute name (XString str) (m_xml_node v)\<rparr>)"

definition on_adapter_int64 :: "string \<Rightarrow> int \<Rightarrow> XmlSerializer \<Rightarrow> XmlSerializer" where
  "on_adapter_int64 name i v = v\<lparr>m_xml_node := append_attribute name (XInt i) (m_xml_node v)\<rparr>"

definition on_adapter_double :: "string \<Rightarrow> double \<Rightarrow> XmlSerializer \<Rightarrow> XmlSerializer" where
  "on_adapter_double name d v = v\<lparr>m_xml_node := append_attribute name (XDouble d) (m_xml_node v)\<rparr>"

definition on_adapter_vector ::
  "('a \<Rightarrow> string) \<Rightarrow> string \<Rightarrow> 'a list \<Rightarrow> XmlSerializer \<Rightarrow> XmlSerializer" where
  "on_adapter_vector shw name c v =
     v\<lparr>m_xml_node := append_attribute name (XString (join shw c)) (m_xml_node v)\<rparr>"

text \<open>The overload of \<open>on_adapter\<close> that the kind of the attribute selects.\<close>

fun on_adapter :: "library \<Rightarrow> string \<Rightarrow> AttributeValue \<Rightarrow> XmlSerializer \<Rightarrow> XmlSerializer" where
  "on_adapter lib name AVoid v = on_adapter_void name v"
| "on_adapter lib name (AVoidPtr adapter) v = on_adapter_void_ptr name adapter v"
| "on_adapter lib name (ABool b) v = on_adapter_bool name b v"
| "on_adapter lib name (AString str) v = on_adapter_string name str v"
| "on_adapter lib name (AInt64 i) v = on_adapter_int64 name i v"
| "on_adapter lib name (ADouble d) v = on_adapter_double name d v"
| "on_adapter lib name (AInt64Vector c) v = on_adapter_vector to_string_int name c v"
| "on_adapter lib name (AUInt64Vector c) v = on_adapter_vector to_string name c v"
| "on_adapter lib name (AFloatVector c) v = on_adapter_vector (show_float lib) name c v"
| "on_adapter lib name (AStringVector c) v = on_adapter_vector (\<lambda>str. str) name c v"

text \<open>
  \<^verbatim>\<open>node->visit_attributes(visitor)\<close>: the node hands each of its attributes to the visitor
  and says whether it supports visitors.
\<close>

definition visit_attributes :: "library \<Rightarrow> Node \<Rightarrow> XmlSerializer \<Rightarrow> XmlSerializer \<times> bool" where
  "visit_attributes lib n visitor =
     (fold (\<lambda>(name, a). on_adapter lib name a) (attributes n) visitor, visit_attributes_result n)"

fun visit_exec_graph_params ::
  "(string \<times> xml_value) list \<Rightarrow> string \<Rightarrow> (string \<times> Variant) list
     \<Rightarrow> (string \<times> xml_value) list \<times> string" where
  "visit_exec_graph_params data node_type_name [] = (data, node_type_name)"
| "visit_exec_graph_params data node_type_name ((name, VariantString val) # params) =
     (if name = ''layerType''
      then visit_exec_graph_params data val params
      else visit_exec_graph_params (append_attribute name (XString val) data) node_type_name params)"
| "visit_exec_graph_params data node_type_name ((name, VariantOther) # params) =
     visit_exec_graph_params data node_type_name params"

definition visit_exec_graph_node ::
  "(string \<times> xml_value) list \<Rightarrow> string \<Rightarrow> Node \<Rightarrow> (string \<times> xml_value) list \<times> string" where
  "visit_exec_graph_node data node_type_name n =
     visit_exec_graph_params data node_type_name (rt_info n)"

subsection \<open>Layer ids and edges\<close>

text \<open>
  Layer ids and ports are of type \<^verbatim>\<open>int\<close>; the model counts in unbounded integers, which
  is the C++ as long as a graph has fewer than \<open>2^31\<close> nodes and ports.
\<close>

fun create_layer_ids_loop ::
  "node_ptr list \<Rightarrow> int \<Rightarrow> (node_ptr \<rightharpoonup> int) \<Rightarrow> (node_ptr \<rightharpoonup> int)" where
  "create_layer_ids_loop [] id0 layer_ids = layer_ids"
| "create_layer_ids_loop (node # nodes) id0 layer_ids =
     create_layer_ids_loop nodes (id0 + 1) (layer_ids(node \<mapsto> id0))"

definition create_layer_ids :: "Function \<Rightarrow> (node_ptr \<rightharpoonup> int)" where
  "create_layer_ids f = create_layer_ids_loop (get_ordered_ops f) 0 Map.empty"

text \<open>
  The inner loop of \<open>create_edge_mapping\<close>, over the inputs of \<open>current_node\<close> from
  input index \<open>index\<close> on; and the outer loop, over the ordered nodes.
\<close>

fun input_edges ::
  "(node_ptr \<rightharpoonup> int) \<Rightarrow> heap \<Rightarrow> node_ptr \<Rightarrow> nat \<Rightarrow> Output list \<Rightarrow> error + Edge list" where
  "input_edges layer_ids h current_node index [] = Inr []"
| "input_edges layer_ids h current_node index ((source_node, source_index) # is) =
     (case layer_ids source_node of
        None \<Rightarrow> Inl (CheckFailure ''Internal error'')
      | Some from_id \<Rightarrow>
          (case layer_ids current_node of
             None \<Rightarrow> Inl (CheckFailure ''Internal error'')
           | Some to_id \<Rightarrow>
               (case input_edges layer_ids h current_node (index + 1) is of
                  Inl err \<Rightarrow> Inl err
                | Inr edges \<Rightarrow>
                    Inr (\<lparr>from_layer = from_id,
                          from_port = int (get_input_size (h source_node)) + int source_index,
                          to_layer = to_id,
                          to_port = int index\<rparr> # edges))))"

fun collect_edges :: "(node_ptr \<rightharpoonup> int) \<Rightarrow> heap \<Rightarrow> node_ptr list \<Rightarrow> error + Edge list" where
  "collect_edges layer_ids h [] = Inr []"
| "collect_edges layer_ids h (node # nodes) =
     (if is_parameter (h node) then collect_edges layer_ids h nodes
      else
        (case input_edges layer_ids h node 0 (inputs (h node)) of
           Inl err \<Rightarrow> Inl err
         | Inr es \<Rightarrow>
             (case collect_edges layer_ids h nodes of
                Inl err \<Rightarrow> Inl err
              | Inr edges \<Rightarrow> Inr (es @ edges))))"

text \<open>The comparison that \<open>create_edge_mapping\<close> gives to \<^verbatim>\<open>std::sort\<close>.\<close>

definition by_from_layer :: "Edge \<Rightarrow> Edge \<Rightarrow> bool" where
  "by_from_layer a b \<longleftrightarrow> from_layer a < from_layer b"

definition create_edge_mapping ::
  "library \<Rightarrow> (node_ptr \<rightharpoonup> int) \<Rightarrow> heap \<Rightarrow> Function \<Rightarrow> error + Edge list" where
  "create_edge_mapping lib layer_ids h f =
     (case collect_edges layer_ids h (get_ordered_ops f) of
        Inl err \<Rightarrow> Inl err
      | Inr edges \<Rightarrow> Inr (std_sort lib by_from_layer edges))"

subsection \<open>Op set names and precisions\<close>

fun opsets_loop :: "OpSet list \<Rightarrow> Node \<Rightarrow> nat \<Rightarrow> string option" where
  "opsets_loop [] n idx = None"
| "opsets_loop (opset # rest) n idx =
     (if contains_op_type opset n then Some (''opset'' @ to_string (idx + 1))
      else opsets_loop rest n (idx + 1))"

fun custom_opsets_loop :: "(string \<times> OpSet) list \<Rightarrow> Node \<Rightarrow> string option" where
  "custom_opsets_loop [] n = None"
| "custom_opsets_loop ((name, opset) # custom_opsets) n =
     (if contains_op_type opset n then Some name else custom_opsets_loop custom_opsets n)"

text \<open>The array \<open>opsets\<close> of \<open>get_opset_name\<close>: the built-in op sets, oldest first.\<close>

definition opsets :: "library \<Rightarrow> OpSet list" where
  "opsets lib = [get_opset1 lib, get_opset2 lib, get_opset3 lib, get_opset4 lib, get_opset5 lib]"

definition get_opset_name :: "library \<Rightarrow> Node \<Rightarrow> (string \<times> OpSet) list \<Rightarrow> string" where
  "get_opset_name lib n custom_opsets =
     (case opsets_loop (opsets lib) n 0 of
        Some name \<Rightarrow> name
      | None \<Rightarrow>
          (case custom_opsets_loop custom_opsets n of
             Some name \<Rightarrow> name
           | None \<Rightarrow> ''experimental''))"

text \<open>The argument is the tensor of the output \<open>o\<close>.\<close>

fun get_output_precision_name :: "Tensor \<Rightarrow> error + string" where
  "get_output_precision_name t =
     (case element_type t of
        undefined_t \<Rightarrow> Inr ''UNSPECIFIED''
      | f16 \<Rightarrow> Inr ''FP16''
      | f32 \<Rightarrow> Inr ''FP32''
      | bf16 \<Rightarrow> Inr ''BF16''
      | f64 \<Rightarrow> Inr ''FP64''
      | i8 \<Rightarrow> Inr ''I8''
      | i16 \<Rightarrow> Inr ''I16''
      | i32 \<Rightarrow> Inr ''I32''
      | i64 \<Rightarrow> Inr ''I64''
      | u8 \<Rightarrow> Inr ''U8''
      | u16 \<Rightarrow> Inr ''U16''
      | u32 \<Rightarrow> Inr ''U32''
      | u64 \<Rightarrow> Inr ''U64''
      | u1 \<Rightarrow> Inr ''BIN''
      | boolean \<Rightarrow> Inr ''BOOL''
      | dynamic_t \<Rightarrow> Inl (CheckFailure ''Unsupported precision in ''))"

subsection \<open>Unique names\<close>

text \<open>
  The set of names is an \<^verbatim>\<open>unordered_set\<close>: a finite set. The suffix counts up from 0 (an
  \<^verbatim>\<open>int\<close> in the source, which it stays within as long as fewer than \<open>2^31\<close> names
  collide). The recursion ends because the decimal numerals of different numbers differ,
  so that only finitely many suffixes give a name of the set.
\<close>

function generate_unique_name :: "string fset \<Rightarrow> string \<Rightarrow> nat \<Rightarrow> string" where
  "generate_unique_name unique_names base_name sfx =
     (let new_name = base_name @ to_string sfx in
      if new_name |\<notin>| unique_names then new_name
      else generate_unique_name unique_names base_name (Suc sfx))"
  by pat_completeness auto
termination
proof (relation "measure (\<lambda>(S, b, k). card {j. k \<le> j \<and> b @ to_string j |\<in>| S})")
  show "wf (measure (\<lambda>(S, b, k). card {j. k \<le> j \<and> b @ to_string j |\<in>| S}))" by simp
next
  fix unique_names :: "string fset" and base_name :: string and sfx :: nat and x :: string
  assume x: "x = base_name @ to_string sfx" and "\<not> x |\<notin>| unique_names"
  then have mem: "base_name @ to_string sfx |\<in>| unique_names" by simp
  let ?A = "\<lambda>k. {j. k \<le> j \<and> base_name @ to_string j |\<in>| unique_names}"
  have digit: "d = e" if "d < 10" "e < 10" "digit_char d = digit_char e" for d e
  proof -
    have "distinct ''0123456789''" by simp
    moreover have "d < length ''0123456789''" "e < length ''0123456789''"
      using that(1,2) by simp_all
    ultimately have "(''0123456789'' ! d = ''0123456789'' ! e) = (d = e)"
      by (rule nth_eq_iff_index_eq)
    with that(3) show ?thesis by (simp add: digit_char_def)
  qed
  have one: "to_string n = [digit_char n]" if "n < 10" for n
    using that by (subst to_string.simps) simp
  have more: "to_string n = to_string (n div 10) @ [digit_char (n mod 10)]" if "\<not> n < 10" for n
    using that by (subst to_string.simps) simp
  have not_Nil: "to_string n \<noteq> []" for n
    by (subst to_string.simps) simp
  have numeral_inj: "n = m" if "to_string n = to_string m" for n m
    using that
  proof (induction n arbitrary: m rule: to_string.induct)
    case (1 n)
    show ?case
    proof (cases "n < 10")
      case True
      have "m < 10"
      proof (rule ccontr)
        assume "\<not> m < 10"
        with one [OF True] more [of m] "1.prems" not_Nil [of "m div 10"] show False by simp
      qed
      with one [OF True] one [of m] "1.prems" True show ?thesis by (simp add: digit)
    next
      case False
      have m: "\<not> m < 10"
      proof
        assume "m < 10"
        with more [OF False] one [of m] "1.prems" not_Nil [of "n div 10"] show False by simp
      qed
      from more [OF False] more [OF m] "1.prems"
      have a: "to_string (n div 10) = to_string (m div 10)"
        and b: "digit_char (n mod 10) = digit_char (m mod 10)" by simp_all
      from "1.IH" [OF False a] have "n div 10 = m div 10" .
      moreover from b have "n mod 10 = m mod 10" by (simp add: digit)
      ultimately show ?thesis by (metis div_mult_mod_eq)
    qed
  qed
  have "inj (\<lambda>j. base_name @ to_string j)"
    by (auto simp: inj_on_def dest: numeral_inj)
  then have "finite ((\<lambda>j. base_name @ to_string j) -` fset unique_names)"
    by (intro finite_vimageI) simp_all
  then have fin: "finite (?A sfx)"
    by (rule rev_finite_subset) auto
  have "sfx \<in> ?A sfx" "sfx \<notin> ?A (Suc sfx)" "?A (Suc sfx) \<subseteq> ?A sfx"
    using mem by auto
  then have "?A (Suc sfx) \<subset> ?A sfx" by blast
  then have "card (?A (Suc sfx)) < card (?A sfx)"
    using fin by (rule psubset_card_mono [rotated])
  then show "((unique_names, base_name, Suc sfx), unique_names, base_name, sfx)
       \<in> measure (\<lambda>(S, b, k). card {j. k \<le> j \<and> b @ to_string j |\<in>| S})"
    by simp
qed

declare generate_unique_name.simps [simp del]

text \<open>The name of the node, and the set with the name inserted.\<close>

definition get_node_unique_name :: "string fset \<Rightarrow> Node \<Rightarrow> string \<times> string fset" where
  "get_node_unique_name unique_names n =
     (let name = friendly_name n;
          name = (if name |\<in>| unique_names then generate_unique_name unique_names name 0 else name)
      in (name, finsert name unique_names))"

subsection \<open>Execution graphs\<close>

definition is_exec_graph :: "heap \<Rightarrow> Function \<Rightarrow> bool" where
  "is_exec_graph h f =
     list_ex (\<lambda>op. ''execTimeMcs'' \<in> set (map fst (rt_info (h op)))) (get_ops f)"

subsection \<open>Dynamic shapes\<close>

text \<open>
  \<^verbatim>\<open>Dimension(in_dim.get_max_length())\<close>: the static dimension of the declared upper bound
  of \<open>in_dim\<close>; for a dimension with no declared upper bound, what the library makes
  of it.
\<close>

definition max_length_dimension :: "library \<Rightarrow> Dimension \<Rightarrow> Dimension" where
  "max_length_dimension lib in_dim =
     (case max_bound in_dim of
        Some u \<Rightarrow> Dimension u (Some u)
      | None \<Rightarrow> unbounded_max_dimension lib)"

definition dynamic_to_static :: "library \<Rightarrow> PartialShape \<Rightarrow> PartialShape" where
  "dynamic_to_static lib shape =
     (if PartialShape_is_static shape \<or> rank_is_dynamic shape then shape
      else
        (case shape of
           RankDynamic \<Rightarrow> shape
         | RankStatic ds \<Rightarrow>
             RankStatic (map (\<lambda>in_dim. if Dimension_is_dynamic in_dim
                                        then max_length_dimension lib in_dim else in_dim) ds)))"

text \<open>
  The branch of a failed constant folding, for one output and for all outputs of the
  clone. The two writes are in the order of the source; the second reads the tensor the
  first has written.
\<close>

definition fold_failed_output :: "library \<Rightarrow> node_ptr \<Rightarrow> node_ptr \<Rightarrow> nat \<Rightarrow> heap \<Rightarrow> heap" where
  "fold_failed_output lib op clone_op output_id h =
     (let t = outputs (h clone_op) ! output_id;
          h1 = set_output_type h clone_op output_id (element_type t)
                 (dynamic_to_static lib (partial_shape t));
          t1 = outputs (h1 clone_op) ! output_id
      in set_output_type h1 op output_id (element_type t1) (partial_shape t1))"

definition fold_failed :: "library \<Rightarrow> node_ptr \<Rightarrow> node_ptr \<Rightarrow> heap \<Rightarrow> heap" where
  "fold_failed lib op clone_op h =
     fold (fold_failed_output lib op clone_op) [0..<get_output_size (h clone_op)] h"

text \<open>
  The branch of a successful constant folding: the replacements give the types of the
  outputs of \<open>op\<close>, then every output of the clone that differs from its replacement is
  replaced by it. A replacement is an output of a node (a null replacement is not
  modelled).
\<close>

fun set_replacement_types ::
  "node_ptr \<Rightarrow> Output list \<Rightarrow> nat list \<Rightarrow> heap \<Rightarrow> error + heap" where
  "set_replacement_types op replacements [] h = Inr h"
| "set_replacement_types op replacements (output_id # ids) h =
     (if \<not> output_id < length replacements then Inl (OutOfRange ''replacements'')
      else
        (case get_tensor h (replacements ! output_id) of
           Inl err \<Rightarrow> Inl err
         | Inr t \<Rightarrow>
             set_replacement_types op replacements ids
               (set_output_type h op output_id (element_type t) (partial_shape t))))"

fun replace_outputs ::
  "library \<Rightarrow> node_ptr \<Rightarrow> Output list \<Rightarrow> nat \<Rightarrow> heap \<Rightarrow> error + heap" where
  "replace_outputs lib clone_op [] i h = Inr h"
| "replace_outputs lib clone_op (replacement # replacements) i h =
     (if \<not> i < get_output_size (h clone_op) then Inl (OutOfRange ''node output index'')
      else
        let node_output = (clone_op, i) in
        replace_outputs lib clone_op replacements (i + 1)
          (if node_output \<noteq> replacement then output_replace lib h node_output replacement else h))"

definition fold_succeeded ::
  "library \<Rightarrow> node_ptr \<Rightarrow> node_ptr \<Rightarrow> Output list \<Rightarrow> heap \<Rightarrow> error + heap" where
  "fold_succeeded lib op clone_op replacements h =
     (case set_replacement_types op replacements [0..<get_output_size (h clone_op)] h of
        Inl err \<Rightarrow> Inl err
      | Inr h1 \<Rightarrow> replace_outputs lib clone_op replacements 0 h1)"

text \<open>
  One round of the loop of \<open>resolve_dynamic_shapes\<close>, with the recursive call on the
  function of a sub-graph node as the parameter \<open>resolve\<close>. The result \<open>None\<close> is a
  call that did not return.
\<close>

definition resolve_op ::
  "library \<Rightarrow> (heap \<Rightarrow> Function \<Rightarrow> (error + bool \<times> heap) option) \<Rightarrow> heap \<Rightarrow> node_ptr \<Rightarrow> node_ptr
     \<Rightarrow> (error + heap) option" where
  "resolve_op lib resolve h op clone_op =
     (case (case node_class (h op) of
              SubGraphOp g \<Rightarrow>
                (case resolve h g of
                   None \<Rightarrow> None
                 | Some (Inl err) \<Rightarrow> Some (Inl err)
                 | Some (Inr (was_dynamic, h')) \<Rightarrow> Some (Inr h'))
            | _ \<Rightarrow> Some (Inr h)) of
        None \<Rightarrow> None
      | Some (Inl err) \<Rightarrow> Some (Inl err)
      | Some (Inr h1) \<Rightarrow>
          (case validate_and_infer_types lib h1 op of
             Inl err \<Rightarrow> Some (Inl err)
           | Inr h2 \<Rightarrow>
               (case validate_and_infer_types lib h2 clone_op of
                  Inl err \<Rightarrow> Some (Inl err)
                | Inr h3 \<Rightarrow>
                    (case constant_fold lib h3 clone_op of
                       None \<Rightarrow> Some (Inr (fold_failed lib op clone_op h3))
                     | Some (h4, replacements) \<Rightarrow>
                         Some (fold_succeeded lib op clone_op replacements h4)))))"

fun resolve_ops ::
  "library \<Rightarrow> (heap \<Rightarrow> Function \<Rightarrow> (error + bool \<times> heap) option) \<Rightarrow> heap
     \<Rightarrow> (node_ptr \<times> node_ptr) list \<Rightarrow> (error + heap) option" where
  "resolve_ops lib resolve h [] = Some (Inr h)"
| "resolve_ops lib resolve h ((op, clone_op) # ops) =
     (case resolve_op lib resolve h op clone_op of
        None \<Rightarrow> None
      | Some (Inl err) \<Rightarrow> Some (Inl err)
      | Some (Inr h') \<Rightarrow> resolve_ops lib resolve h' ops)"

definition resolve_body ::
  "library \<Rightarrow> (heap \<Rightarrow> Function \<Rightarrow> (error + bool \<times> heap) option) \<Rightarrow> heap \<Rightarrow> Function
     \<Rightarrow> (error + bool \<times> heap) option" where
  "resolve_body lib resolve h f =
     (let f_ops = get_ordered_ops f in
      if list_all (\<lambda>results. \<not> is_dynamic (h results)) f_ops then Some (Inr (False, h))
      else
        (case clone_function lib h f of
           (h1, f_clone) \<Rightarrow>
             let f_clone_ops = get_ordered_ops f_clone in
             if length f_ops \<noteq> length f_clone_ops
             then Some (Inl (CheckFailure ''Unexpected get_ordered_ops method behaviour''))
             else
               (case resolve_ops lib resolve h1 (zip f_ops f_clone_ops) of
                  None \<Rightarrow> None
                | Some (Inl err) \<Rightarrow> Some (Inl err)
                | Some (Inr h2) \<Rightarrow> Some (Inr (True, h2)))))"

text \<open>
  \<open>resolve_dynamic_shapes\<close> calls itself on the functions of sub-graph nodes. The
  second argument bounds the depth of these calls: a call that would go deeper does not
  return (\<open>None\<close>).
\<close>

primrec resolve_dynamic_shapes ::
  "library \<Rightarrow> nat \<Rightarrow> heap \<Rightarrow> Function \<Rightarrow> (error + bool \<times> heap) option" where
  "resolve_dynamic_shapes lib 0 = resolve_body lib (\<lambda>h g. None)"
| "resolve_dynamic_shapes lib (Suc depth) = resolve_body lib (resolve_dynamic_shapes lib depth)"

subsection \<open>The document of a function\<close>

definition dims_xml :: "nat list \<Rightarrow> xml_node list" where
  "dims_xml shape = map (\<lambda>d. Element ''dim'' [] [PCData (to_string d)]) shape"

fun input_ports :: "heap \<Rightarrow> Output list \<Rightarrow> int \<Rightarrow> error + xml_node list" where
  "input_ports h [] port_id = Inr []"
| "input_ports h (i # is) port_id =
     (case get_tensor h i of
        Inl err \<Rightarrow> Inl err
      | Inr t \<Rightarrow>
          if \<not> PartialShape_is_static (partial_shape t)
          then Inl (CheckFailure ''Unsupported dynamic input shape in '')
          else
            (case input_ports h is (port_id + 1) of
               Inl err \<Rightarrow> Inl err
             | Inr ports \<Rightarrow>
                 Inr (Element ''port'' [(''id'', XInt port_id)]
                        (dims_xml (get_shape (partial_shape t))) # ports)))"

fun output_ports :: "Tensor list \<Rightarrow> int \<Rightarrow> error + xml_node list" where
  "output_ports [] port_id = Inr []"
| "output_ports (t # os) port_id =
     (if \<not> PartialShape_is_static (partial_shape t)
      then Inl (CheckFailure ''Unsupported dynamic output shape in '')
      else
        (case get_output_precision_name t of
           Inl err \<Rightarrow> Inl err
         | Inr precision \<Rightarrow>
             (case output_ports os (port_id + 1) of
                Inl err \<Rightarrow> Inl err
              | Inr ports \<Rightarrow>
                  Inr (Element ''port'' [(''id'', XInt port_id), (''precision'', XString precision)]
                         (dims_xml (get_shape (partial_shape t))) # ports))))"

text \<open>
  The \<open>data\<close> attributes and the type name of a node, and the binary stream after them:
  from the runtime info for an execution graph, from the attribute visitor otherwise.
\<close>

definition layer_data ::
  "library \<Rightarrow> bool \<Rightarrow> Node \<Rightarrow> byte list
     \<Rightarrow> error + (string \<times> xml_value) list \<times> string \<times> byte list" where
  "layer_data lib exec_graph n bin_file =
     (let node_type_name = get_type_name n in
      if exec_graph then
        (case visit_exec_graph_node [] node_type_name n of
           (data, node_type_name') \<Rightarrow> Inr (data, node_type_name', bin_file))
      else
        (case visit_attributes lib n
                \<lparr>m_xml_node = [], m_bin_data = bin_file, m_node_type_name = node_type_name\<rparr> of
           (visitor, supported) \<Rightarrow>
             if \<not> supported then Inl (CheckFailure ''Visitor API is not supported in '')
             else Inr (m_xml_node visitor, m_node_type_name visitor, m_bin_data visitor)))"

text \<open>
  One round of the loop over the ordered nodes: the \<open>layer\<close> element of the node, the
  set of names and the binary stream after it.
\<close>

definition write_layer ::
  "library \<Rightarrow> bool \<Rightarrow> (node_ptr \<rightharpoonup> int) \<Rightarrow> (string \<times> OpSet) list \<Rightarrow> heap \<Rightarrow> node_ptr
     \<Rightarrow> string fset \<Rightarrow> byte list \<Rightarrow> error + xml_node \<times> string fset \<times> byte list" where
  "write_layer lib exec_graph layer_ids custom_opsets h node unique_names bin_file =
     (case layer_ids node of
        None \<Rightarrow> Inl (CheckFailure ''Internal error'')
      | Some layer_id \<Rightarrow>
          (case get_node_unique_name unique_names (h node) of
             (name, unique_names') \<Rightarrow>
               let version =
                     (if \<not> exec_graph
                      then [(''version'', XString (get_opset_name lib (h node) custom_opsets))]
                      else [])
               in
               (case layer_data lib exec_graph (h node) bin_file of
                  Inl err \<Rightarrow> Inl err
                | Inr (data, node_type_name, bin_file') \<Rightarrow>
                    (case (if get_input_size (h node) > 0
                           then (case input_ports h (inputs (h node)) 0 of
                                   Inl err \<Rightarrow> Inl err
                                 | Inr ports \<Rightarrow> Inr [Element ''input'' [] ports])
                           else Inr []) of
                       Inl err \<Rightarrow> Inl err
                     | Inr input \<Rightarrow>
                         (case (if get_output_size (h node) > 0 \<and> \<not> is_output (h node)
                                then (case output_ports (outputs (h node))
                                             (int (get_input_size (h node))) of
                                        Inl err \<Rightarrow> Inl err
                                      | Inr ports \<Rightarrow> Inr [Element ''output'' [] ports])
                                else Inr []) of
                            Inl err \<Rightarrow> Inl err
                          | Inr output \<Rightarrow>
                              Inr (Element ''layer''
                                     ([(''id'', XInt layer_id), (''name'', XString name),
                                       (''type'', XString (translate_type_name node_type_name))]
                                      @ version)
                                     ((if data = [] then [] else [Element ''data'' data []])
                                      @ input @ output),
                                   unique_names', bin_file'))))))"

fun write_layers ::
  "library \<Rightarrow> bool \<Rightarrow> (node_ptr \<rightharpoonup> int) \<Rightarrow> (string \<times> OpSet) list \<Rightarrow> heap \<Rightarrow> node_ptr list
     \<Rightarrow> string fset \<Rightarrow> byte list \<Rightarrow> error + xml_node list \<times> string fset \<times> byte list" where
  "write_layers lib exec_graph layer_ids custom_opsets h [] unique_names bin_file =
     Inr ([], unique_names, bin_file)"
| "write_layers lib exec_graph layer_ids custom_opsets h (node # nodes) unique_names bin_file =
     (case write_layer lib exec_graph layer_ids custom_opsets h node unique_names bin_file of
        Inl err \<Rightarrow> Inl err
      | Inr (layer, unique_names', bin_file') \<Rightarrow>
          (case write_layers lib exec_graph layer_ids custom_opsets h nodes unique_names' bin_file' of
             Inl err \<Rightarrow> Inl err
           | Inr (layers, unique_names'', bin_file'') \<Rightarrow>
               Inr (layer # layers, unique_names'', bin_file'')))"

definition edge_xml :: "Edge \<Rightarrow> xml_node" where
  "edge_xml e =
     Element ''edge''
       [(''from-layer'', XInt (from_layer e)), (''from-port'', XInt (from_port e)),
        (''to-layer'', XInt (to_layer e)), (''to-port'', XInt (to_port e))] []"

text \<open>
  \<open>ngfunction_2_irv10\<close> gives the \<open>net\<close> element it appends to the (empty) document,
  the binary stream and the heap after the call. The second argument is the depth bound
  of \<open>resolve_dynamic_shapes\<close>.
\<close>

definition ngfunction_2_irv10 ::
  "library \<Rightarrow> nat \<Rightarrow> byte list \<Rightarrow> heap \<Rightarrow> Function \<Rightarrow> (string \<times> OpSet) list
     \<Rightarrow> (error + xml_node \<times> byte list \<times> heap) option" where
  "ngfunction_2_irv10 lib depth bin_file h f custom_opsets =
     (let exec_graph = is_exec_graph h f;
          layer_ids = create_layer_ids f
      in
      (case resolve_dynamic_shapes lib depth h f of
         None \<Rightarrow> None
       | Some (Inl err) \<Rightarrow> Some (Inl err)
       | Some (Inr (has_dynamic_shapes, h1)) \<Rightarrow>
           (case write_layers lib exec_graph layer_ids custom_opsets h1 (get_ordered_ops f)
                   {||} bin_file of
              Inl err \<Rightarrow> Some (Inl err)
            | Inr (layers, unique_names, bin_file') \<Rightarrow>
                (case create_edge_mapping lib layer_ids h1 f of
                   Inl err \<Rightarrow> Some (Inl err)
                 | Inr edge_mapping \<Rightarrow>
                     let netXml =
                           Element ''net''
                             [(''name'', XString (get_friendly_name f)),
                              (''version'', XString ''10'')]
                             [Element ''layers'' [] layers,
                              Element ''edges'' [] (map edge_xml edge_mapping)]
                     in
                     if has_dynamic_shapes then
                       (case validate_nodes_and_infer_types lib h1 f of
                          Inl err \<Rightarrow> Some (Inl err)
                        | Inr h2 \<Rightarrow> Some (Inr (netXml, bin_file', h2)))
                     else Some (Inr (netXml, bin_file', h1))))))"

subsection \<open>The notions of the properties\<close>

text \<open>
  The names that successive calls of \<open>get_node_unique_name\<close> return for a sequence of
  nodes, each call on the set the one before has left: what the loop over the layers
  does with the set it starts empty.
\<close>

fun unique_names_of :: "string fset \<Rightarrow> Node list \<Rightarrow> string list" where
  "unique_names_of unique_names [] = []"
| "unique_names_of unique_names (n # ns) =
     (case get_node_unique_name unique_names n of
        (name, unique_names') \<Rightarrow> name # unique_names_of unique_names' ns)"

text \<open>
  The name \<open>r\<close> is right for the candidate \<open>c\<close> after the names \<open>prev\<close>: it is new;
  it is the candidate when the candidate is new; else it is the candidate with a number
  \<open>k\<close> appended, every smaller number giving a name of \<open>prev\<close>.
\<close>

definition allocated_right :: "string set \<Rightarrow> string \<Rightarrow> string \<Rightarrow> bool" where
  "allocated_right prev c r \<longleftrightarrow>
     r \<notin> prev \<and> (c \<notin> prev \<longrightarrow> r = c)
     \<and> (c \<in> prev \<longrightarrow> (\<exists>k. r = c @ to_string k \<and> (\<forall>j<k. c @ to_string j \<in> prev)))"

text \<open>
  The edge \<open>e\<close> is the edge of input port \<open>k\<close> of the node \<open>node\<close>: it goes from the layer
  of the source node of the port, at the port numbered by the input count of the source
  node plus the index of the source output, to the layer of \<open>node\<close>, at port \<open>k\<close>.
\<close>

definition edge_of_port :: "(node_ptr \<rightharpoonup> int) \<Rightarrow> heap \<Rightarrow> Edge \<Rightarrow> node_ptr \<times> nat \<Rightarrow> bool" where
  "edge_of_port layer_ids h e p =
     (case p of (node, k) \<Rightarrow>
        (case inputs (h node) ! k of (source_node, source_index) \<Rightarrow>
           layer_ids source_node = Some (from_layer e)
           \<and> from_port e = int (get_input_size (h source_node)) + int source_index
           \<and> layer_ids node = Some (to_layer e)
           \<and> to_port e = int k))"

text \<open>The input ports of the nodes that are not parameters, in the order of the loops.\<close>

definition input_ports_of :: "heap \<Rightarrow> node_ptr list \<Rightarrow> (node_ptr \<times> nat) list" where
  "input_ports_of h ops =
     concat (map (\<lambda>node. map (Pair node) [0..<get_input_size (h node)])
                 (filter (\<lambda>node. \<not> is_parameter (h node)) ops))"

text \<open>
  A library conforms when its \<^verbatim>\<open>std::sort\<close> keeps the contract on every edge list, for
  the comparison of \<open>create_edge_mapping\<close>.
\<close>

definition std_sort_conforms :: "library \<Rightarrow> bool" where
  "std_sort_conforms lib \<longleftrightarrow>
     (\<forall>edges. std_sort_post by_from_layer edges (std_sort lib by_from_layer edges))"

text \<open>
  The ordering \<open>ops\<close> is topological: the source node of every input of a node stands
  before the node.
\<close>

definition topological :: "heap \<Rightarrow> node_ptr list \<Rightarrow> bool" where
  "topological h ops \<longleftrightarrow>
     (\<forall>j<length ops. \<forall>(source_node, source_index) \<in> set (inputs (h (ops ! j))).
        source_node \<in> set (take j ops))"

text \<open>
  The edge \<open>e\<close> goes forward in \<open>ops\<close>: its layers are the positions \<open>i < j\<close> of two nodes,
  and the node at \<open>i\<close> is the source of an input of the node at \<open>j\<close>.
\<close>

definition forward_edge :: "heap \<Rightarrow> node_ptr list \<Rightarrow> Edge \<Rightarrow> bool" where
  "forward_edge h ops e \<longleftrightarrow>
     (\<exists>i j. i < j \<and> j < length ops \<and> from_layer e = int i \<and> to_layer e = int j
        \<and> ops ! i \<in> fst ` set (inputs (h (ops ! j))))"

text \<open>
  The nodes of a function and, recursively, of the functions that its sub-graph nodes
  own.
\<close>

inductive_set nested_nodes :: "heap \<Rightarrow> Function \<Rightarrow> node_ptr set" for h :: heap and f :: Function where
  top: "n \<in> set (get_ordered_ops f) \<Longrightarrow> n \<in> nested_nodes h f"
| nested: "m \<in> nested_nodes h f \<Longrightarrow> node_class (h m) = SubGraphOp g
     \<Longrightarrow> n \<in> set (get_ordered_ops g) \<Longrightarrow> n \<in> nested_nodes h f"







text \<open>The tensor with its shape made static by \<open>dynamic_to_static\<close>.\<close>

definition to_static :: "library \<Rightarrow> Tensor \<Rightarrow> Tensor" where
  "to_static lib t =
     \<lparr>element_type = element_type t, partial_shape = dynamic_to_static lib (partial_shape t)\<rparr>"

text \<open>
  The dimension \<open>d'\<close> is the dimension \<open>d\<close> with its upper bound in its place: a static
  dimension is kept; a dynamic dimension with the upper bound \<open>u\<close> becomes the static
  dimension \<open>u\<close>; a dynamic dimension with no upper bound becomes what the library gives.
\<close>

definition upper_bound_substituted :: "library \<Rightarrow> Dimension \<Rightarrow> Dimension \<Rightarrow> bool" where
  "upper_bound_substituted lib d d' \<longleftrightarrow>
     (if Dimension_is_static d then d' = d
      else case max_bound d of
             Some u \<Rightarrow> d' = Dimension u (Some u)
           | None \<Rightarrow> d' = unbounded_max_dimension lib)"

text \<open>
  A node has a port that is written and whose shape is not static: one of its inputs, or
  one of its outputs when the node is no result.
\<close>

definition dynamic_port :: "heap \<Rightarrow> node_ptr \<Rightarrow> bool" where
  "dynamic_port h node \<longleftrightarrow>
     list_ex (\<lambda>i. case get_tensor h i of
                    Inl err \<Rightarrow> False
                  | Inr t \<Rightarrow> \<not> PartialShape_is_static (partial_shape t)) (inputs (h node))
     \<or> \<not> is_output (h node)
        \<and> list_ex (\<lambda>t. \<not> PartialShape_is_static (partial_shape t)) (outputs (h node))"

text \<open>Whether a call returned without a failure.\<close>

definition returned :: "(error + 'a) option \<Rightarrow> bool" where
  "returned r = (case r of Some (Inr v) \<Rightarrow> True | _ \<Rightarrow> False)"

text \<open>The output shapes of a node after a call of \<open>resolve_dynamic_shapes\<close> that returned.\<close>

definition resolved_shapes :: "(error + bool \<times> heap) option \<Rightarrow> node_ptr \<Rightarrow> PartialShape list option" where
  "resolved_shapes r n =
     (case r of
        Some (Inr (was_dynamic, h)) \<Rightarrow> Some (map partial_shape (outputs (h n)))
      | _ \<Rightarrow> None)"

subsection \<open>Examples\<close>

text \<open>
  An example library: insertion sort for \<^verbatim>\<open>std::sort\<close>; a clone that copies the node
  at the address \<open>p\<close> of the function to the address \<open>p + 1000\<close>; inference that changes
  nothing (the example graphs hold the types that inference gives them); constant folding
  that always fails; and, for a dimension with no upper bound, the dimension from 0 on
  with no upper bound, which is what nGraph makes of \<^verbatim>\<open>Dimension(-1)\<close>.
\<close>

fun insert_by :: "('a \<Rightarrow> 'a \<Rightarrow> bool) \<Rightarrow> 'a \<Rightarrow> 'a list \<Rightarrow> 'a list" where
  "insert_by lt x [] = [x]"
| "insert_by lt x (y # ys) = (if lt y x then y # insert_by lt x ys else x # y # ys)"

definition insertion_sort :: "('a \<Rightarrow> 'a \<Rightarrow> bool) \<Rightarrow> 'a list \<Rightarrow> 'a list" where
  "insertion_sort lt xs = foldr (insert_by lt) xs []"

definition example_clone :: "heap \<Rightarrow> Function \<Rightarrow> heap \<times> Function" where
  "example_clone h f =
     ((\<lambda>p. if 1000 \<le> p \<and> p - 1000 \<in> set (get_ordered_ops f)
           then (h (p - 1000))\<lparr>inputs := map (\<lambda>(n, i). (n + 1000, i)) (inputs (h (p - 1000)))\<rparr>
           else h p),
      f\<lparr>get_ordered_ops := map (\<lambda>p. p + 1000) (get_ordered_ops f),
        get_ops := map (\<lambda>p. p + 1000) (get_ops f)\<rparr>)"

definition example_library :: library where
  "example_library =
     \<lparr>get_opset1 = {(''Parameter'', 0), (''Constant'', 0), (''Result'', 0), (''Add'', 1), (''Relu'', 0)},
      get_opset2 = {(''Parameter'', 0), (''Constant'', 0), (''Result'', 0), (''Add'', 1), (''Relu'', 0), (''Gelu'', 0)},
      get_opset3 = {(''Parameter'', 0), (''Constant'', 0), (''Result'', 0), (''Add'', 1), (''Relu'', 0), (''Gelu'', 0),
                    (''ShapeOf'', 3)},
      get_opset4 = {(''Parameter'', 0), (''Constant'', 0), (''Result'', 0), (''Add'', 1), (''Relu'', 0), (''Gelu'', 0),
                    (''ShapeOf'', 3), (''Mish'', 4)},
      get_opset5 = {(''Parameter'', 0), (''Constant'', 0), (''Result'', 0), (''Add'', 1), (''Relu'', 0), (''Gelu'', 0),
                    (''ShapeOf'', 3), (''Mish'', 4), (''Loop'', 5)},
      show_float = (\<lambda>x. ''0''),
      std_sort = insertion_sort,
      clone_function = example_clone,
      validate_and_infer_types = (\<lambda>h n. Inr h),
      validate_nodes_and_infer_types = (\<lambda>h f. Inr h),
      constant_fold = (\<lambda>h n. None),
      output_replace = (\<lambda>h a b. h),
      unbounded_max_dimension = Dimension 0 None\<rparr>"

definition typed_node :: "string \<Rightarrow> nat \<Rightarrow> Node" where
  "typed_node name version =
     \<lparr>type_info = (name, version), friendly_name = name, node_class = OtherOp, inputs = [],
      outputs = [], attributes = [], visit_attributes_result = True, rt_info = []\<rparr>"

text \<open>A tensor of type f32 with the static shape of the given lengths.\<close>

definition static_f32 :: "nat list \<Rightarrow> Tensor" where
  "static_f32 shape =
     \<lparr>element_type = f32, partial_shape = RankStatic (map (\<lambda>d. Dimension d (Some d)) shape)\<rparr>"

text \<open>An example: four nodes named conv, conv, conv0 and conv.\<close>

definition named_node :: "string \<Rightarrow> Node" where
  "named_node name =
     \<lparr>type_info = (''Convolution'', 1), friendly_name = name, node_class = OtherOp, inputs = [],
      outputs = [], attributes = [], visit_attributes_result = True, rt_info = []\<rparr>"

definition example_visitor :: "string \<Rightarrow> XmlSerializer" where
  "example_visitor type_name =
     \<lparr>m_xml_node = [], m_bin_data = [1, 2], m_node_type_name = type_name\<rparr>"

text \<open>
  A graph with two edges from the same layer: a parameter (node 0) is both inputs of an
  addition (node 1).
\<close>

definition fan_heap :: heap where
  "fan_heap =
     (\<lambda>p. typed_node ''Unused'' 0)
       (0 := (typed_node ''Parameter'' 0)
               \<lparr>node_class := ParameterOp,
                outputs := [\<lparr>element_type = f32, partial_shape = RankStatic [Dimension 2 (Some 2)]\<rparr>]\<rparr>,
        1 := (typed_node ''Add'' 1)
               \<lparr>inputs := [(0, 0), (0, 0)],
                outputs := [\<lparr>element_type = f32, partial_shape = RankStatic [Dimension 2 (Some 2)]\<rparr>]\<rparr>)"

definition fan :: Function where
  "fan = \<lparr>get_ordered_ops = [0, 1], get_ops = [0, 1], get_friendly_name = ''fan''\<rparr>"

definition fan_edge :: "int \<Rightarrow> Edge" where
  "fan_edge port = \<lparr>from_layer = 0, from_port = 0, to_layer = 1, to_port = port\<rparr>"

text \<open>
  \<^verbatim>\<open>std::sort\<close> is not part of \<^verbatim>\<open>serialize.cpp\<close>, and the properties are proved for every
  sort that keeps its contract. For an execution of \<open>create_edge_mapping\<close>, this is the
  \<^verbatim>\<open>std::sort\<close> of the GNU C++ library (\<^verbatim>\<open>bits/stl_algo.h\<close> and \<^verbatim>\<open>bits/stl_heap.h\<close>),
  function by function, each under its name there without the leading underscores:
  a quicksort with the median of three elements as the pivot, which leaves ranges of at
  most 16 elements alone and turns to a heap sort below the depth limit, and an insertion
  sort after it. A range \<^verbatim>\<open>[first, last)\<close> of the vector is the list with two indices,
  and a function gives the list after its writes. The loops that the library calls
  unguarded stop, in C++, at an element the caller has put in their way; here they stop
  at the ends of the list as well, which makes them total.
\<close>

definition iter_swap :: "'a list \<Rightarrow> nat \<Rightarrow> nat \<Rightarrow> 'a list" where
  "iter_swap xs a b = xs[a := xs ! b, b := xs ! a]"

definition move_median_to_first ::
  "('a \<Rightarrow> 'a \<Rightarrow> bool) \<Rightarrow> 'a list \<Rightarrow> nat \<Rightarrow> nat \<Rightarrow> nat \<Rightarrow> nat \<Rightarrow> 'a list" where
  "move_median_to_first lt xs result a b c =
     (if lt (xs ! a) (xs ! b) then
        (if lt (xs ! b) (xs ! c) then iter_swap xs result b
         else if lt (xs ! a) (xs ! c) then iter_swap xs result c
         else iter_swap xs result a)
      else if lt (xs ! a) (xs ! c) then iter_swap xs result a
      else if lt (xs ! b) (xs ! c) then iter_swap xs result c
      else iter_swap xs result b)"

function partition_up :: "('a \<Rightarrow> 'a \<Rightarrow> bool) \<Rightarrow> 'a list \<Rightarrow> nat \<Rightarrow> nat \<Rightarrow> nat" where
  "partition_up lt xs pivot first =
     (if first < length xs \<and> lt (xs ! first) (xs ! pivot) then partition_up lt xs pivot (Suc first)
      else first)"
  by pat_completeness auto
termination
  by (relation "measure (\<lambda>(lt, xs, pivot, first). length xs - first)") auto

declare partition_up.simps [simp del]

primrec partition_down :: "('a \<Rightarrow> 'a \<Rightarrow> bool) \<Rightarrow> 'a list \<Rightarrow> nat \<Rightarrow> nat \<Rightarrow> nat" where
  "partition_down lt xs pivot 0 = 0"
| "partition_down lt xs pivot (Suc lst) =
     (if lt (xs ! pivot) (xs ! Suc lst) then partition_down lt xs pivot lst else Suc lst)"

function unguarded_partition ::
  "('a \<Rightarrow> 'a \<Rightarrow> bool) \<Rightarrow> 'a list \<Rightarrow> nat \<Rightarrow> nat \<Rightarrow> nat \<Rightarrow> 'a list \<times> nat" where
  "unguarded_partition lt xs first lst pivot =
     (let first1 = partition_up lt xs pivot first;
          lst1 = partition_down lt xs pivot (lst - 1)
      in if \<not> first1 < lst1 then (xs, first1)
         else unguarded_partition lt (iter_swap xs first1 lst1) (Suc first1) lst1 pivot)"
  by pat_completeness auto
termination
proof (relation "measure (\<lambda>(lt, xs, first, lst, pivot). lst - first)")
  show "wf (measure (\<lambda>(lt :: 'a \<Rightarrow> 'a \<Rightarrow> bool, xs :: 'a list, first :: nat, lst :: nat, pivot :: nat).
              lst - first))"
    by simp
next
  fix lt :: "'a \<Rightarrow> 'a \<Rightarrow> bool" and xs :: "'a list" and first lst pivot first1 lst1 :: nat
  assume f: "first1 = partition_up lt xs pivot first"
    and l: "lst1 = partition_down lt xs pivot (lst - 1)"
    and c: "\<not> \<not> first1 < lst1"
  have up: "i \<le> partition_up lt xs pivot i" for i
  proof (induction lt xs pivot i rule: partition_up.induct)
    case (1 lt xs pivot first)
    show ?case
    proof (cases "first < length xs \<and> lt (xs ! first) (xs ! pivot)")
      case True
      then have "partition_up lt xs pivot first = partition_up lt xs pivot (Suc first)"
        by (subst partition_up.simps) simp
      with 1 True show ?thesis by simp
    next
      case False
      then have "partition_up lt xs pivot first = first"
        by (subst partition_up.simps) auto
      then show ?thesis by simp
    qed
  qed
  have down: "partition_down lt xs pivot j \<le> j" for j
    by (induction j) (auto simp: le_SucI)
  from up [of first] down [of "lst - 1"] f l c
  show "((lt, iter_swap xs first1 lst1, Suc first1, lst1, pivot), (lt, xs, first, lst, pivot))
          \<in> measure (\<lambda>(lt, xs, first, lst, pivot). lst - first)"
    by simp
qed

definition unguarded_partition_pivot ::
  "('a \<Rightarrow> 'a \<Rightarrow> bool) \<Rightarrow> 'a list \<Rightarrow> nat \<Rightarrow> nat \<Rightarrow> 'a list \<times> nat" where
  "unguarded_partition_pivot lt xs first lst =
     (let mid = first + (lst - first) div 2;
          xs1 = move_median_to_first lt xs first (first + 1) mid (lst - 1)
      in unguarded_partition lt xs1 (first + 1) lst first)"

function push_heap ::
  "('a \<Rightarrow> 'a \<Rightarrow> bool) \<Rightarrow> 'a list \<Rightarrow> nat \<Rightarrow> nat \<Rightarrow> nat \<Rightarrow> 'a \<Rightarrow> 'a list" where
  "push_heap lt xs first holeIndex topIndex val =
     (let parent = (holeIndex - 1) div 2 in
      if holeIndex > topIndex \<and> lt (xs ! (first + parent)) val
      then push_heap lt (xs[first + holeIndex := xs ! (first + parent)]) first parent topIndex val
      else xs[first + holeIndex := val])"
  by pat_completeness auto
termination
  by (relation "measure (\<lambda>(lt, xs, first, holeIndex, topIndex, val). holeIndex)") auto

function adjust_heap_loop ::
  "('a \<Rightarrow> 'a \<Rightarrow> bool) \<Rightarrow> 'a list \<Rightarrow> nat \<Rightarrow> nat \<Rightarrow> nat \<Rightarrow> 'a list \<times> nat" where
  "adjust_heap_loop lt xs first len secondChild =
     (if secondChild < (len - 1) div 2 then
        let child = 2 * (secondChild + 1);
            child1 = (if lt (xs ! (first + child)) (xs ! (first + (child - 1)))
                      then child - 1 else child)
        in adjust_heap_loop lt (xs[first + secondChild := xs ! (first + child1)]) first len child1
      else (xs, secondChild))"
  by pat_completeness auto
termination
  by (relation "measure (\<lambda>(lt, xs, first, len, secondChild). (len - 1) div 2 - secondChild)") auto

definition adjust_heap ::
  "('a \<Rightarrow> 'a \<Rightarrow> bool) \<Rightarrow> 'a list \<Rightarrow> nat \<Rightarrow> nat \<Rightarrow> nat \<Rightarrow> 'a \<Rightarrow> 'a list" where
  "adjust_heap lt xs first holeIndex len val =
     (case adjust_heap_loop lt xs first len holeIndex of
        (xs1, secondChild) \<Rightarrow>
          if even len \<and> secondChild = (len - 2) div 2
          then let child = 2 * (secondChild + 1)
               in push_heap lt (xs1[first + secondChild := xs1 ! (first + (child - 1))]) first
                    (child - 1) holeIndex val
          else push_heap lt xs1 first secondChild holeIndex val)"

definition pop_heap :: "('a \<Rightarrow> 'a \<Rightarrow> bool) \<Rightarrow> 'a list \<Rightarrow> nat \<Rightarrow> nat \<Rightarrow> nat \<Rightarrow> 'a list" where
  "pop_heap lt xs first lst result =
     adjust_heap lt (xs[result := xs ! first]) first 0 (lst - first) (xs ! result)"

primrec make_heap_loop :: "('a \<Rightarrow> 'a \<Rightarrow> bool) \<Rightarrow> 'a list \<Rightarrow> nat \<Rightarrow> nat \<Rightarrow> nat \<Rightarrow> 'a list" where
  "make_heap_loop lt xs first len 0 = adjust_heap lt xs first 0 len (xs ! first)"
| "make_heap_loop lt xs first len (Suc parent) =
     make_heap_loop lt (adjust_heap lt xs first (Suc parent) len (xs ! (first + Suc parent)))
       first len parent"

definition make_heap :: "('a \<Rightarrow> 'a \<Rightarrow> bool) \<Rightarrow> 'a list \<Rightarrow> nat \<Rightarrow> nat \<Rightarrow> 'a list" where
  "make_heap lt xs first lst =
     (if lst - first < 2 then xs
      else make_heap_loop lt xs first (lst - first) ((lst - first - 2) div 2))"

definition heap_select :: "('a \<Rightarrow> 'a \<Rightarrow> bool) \<Rightarrow> 'a list \<Rightarrow> nat \<Rightarrow> nat \<Rightarrow> nat \<Rightarrow> 'a list" where
  "heap_select lt xs first middle lst =
     fold (\<lambda>i ys. if lt (ys ! i) (ys ! first) then pop_heap lt ys first middle i else ys)
       [middle..<lst] (make_heap lt xs first middle)"

function sort_heap :: "('a \<Rightarrow> 'a \<Rightarrow> bool) \<Rightarrow> 'a list \<Rightarrow> nat \<Rightarrow> nat \<Rightarrow> 'a list" where
  "sort_heap lt xs first lst =
     (if lst - first > 1 then sort_heap lt (pop_heap lt xs first (lst - 1) (lst - 1)) first (lst - 1)
      else xs)"
  by pat_completeness auto
termination
  by (relation "measure (\<lambda>(lt, xs, first, lst). lst - first)") auto

definition partial_sort :: "('a \<Rightarrow> 'a \<Rightarrow> bool) \<Rightarrow> 'a list \<Rightarrow> nat \<Rightarrow> nat \<Rightarrow> nat \<Rightarrow> 'a list" where
  "partial_sort lt xs first middle lst = sort_heap lt (heap_select lt xs first middle lst) first middle"

fun introsort_loop :: "('a \<Rightarrow> 'a \<Rightarrow> bool) \<Rightarrow> 'a list \<Rightarrow> nat \<Rightarrow> nat \<Rightarrow> nat \<Rightarrow> 'a list" where
  "introsort_loop lt xs first lst 0 =
     (if lst - first > 16 then partial_sort lt xs first lst lst else xs)"
| "introsort_loop lt xs first lst (Suc depth_limit) =
     (if lst - first > 16 then
        (case unguarded_partition_pivot lt xs first lst of
           (xs1, cut1) \<Rightarrow>
             introsort_loop lt (introsort_loop lt xs1 cut1 lst depth_limit) first cut1 depth_limit)
      else xs)"

primrec unguarded_linear_insert_loop :: "('a \<Rightarrow> 'a \<Rightarrow> bool) \<Rightarrow> 'a \<Rightarrow> 'a list \<Rightarrow> nat \<Rightarrow> 'a list" where
  "unguarded_linear_insert_loop lt val xs 0 = xs[0 := val]"
| "unguarded_linear_insert_loop lt val xs (Suc next) =
     (if lt val (xs ! next)
      then unguarded_linear_insert_loop lt val (xs[Suc next := xs ! next]) next
      else xs[Suc next := val])"

definition unguarded_linear_insert :: "('a \<Rightarrow> 'a \<Rightarrow> bool) \<Rightarrow> 'a list \<Rightarrow> nat \<Rightarrow> 'a list" where
  "unguarded_linear_insert lt xs lst = unguarded_linear_insert_loop lt (xs ! lst) xs lst"

definition insertion_sort_range :: "('a \<Rightarrow> 'a \<Rightarrow> bool) \<Rightarrow> 'a list \<Rightarrow> nat \<Rightarrow> nat \<Rightarrow> 'a list" where
  "insertion_sort_range lt xs first lst =
     fold (\<lambda>i ys. if lt (ys ! i) (ys ! first)
                   then take first ys @ [ys ! i] @ take (i - first) (drop first ys) @ drop (Suc i) ys
                   else unguarded_linear_insert lt ys i)
       [Suc first..<lst] xs"

definition unguarded_insertion_sort :: "('a \<Rightarrow> 'a \<Rightarrow> bool) \<Rightarrow> 'a list \<Rightarrow> nat \<Rightarrow> nat \<Rightarrow> 'a list" where
  "unguarded_insertion_sort lt xs first lst =
     fold (\<lambda>i ys. unguarded_linear_insert lt ys i) [first..<lst] xs"

definition final_insertion_sort :: "('a \<Rightarrow> 'a \<Rightarrow> bool) \<Rightarrow> 'a list \<Rightarrow> nat \<Rightarrow> nat \<Rightarrow> 'a list" where
  "final_insertion_sort lt xs first lst =
     (if lst - first > 16
      then unguarded_insertion_sort lt (insertion_sort_range lt xs first (first + 16)) (first + 16) lst
      else insertion_sort_range lt xs first lst)"

fun lg :: "nat \<Rightarrow> nat" where
  "lg n = (if n < 2 then 0 else Suc (lg (n div 2)))"

definition gnu_sort :: "('a \<Rightarrow> 'a \<Rightarrow> bool) \<Rightarrow> 'a list \<Rightarrow> 'a list" where
  "gnu_sort lt xs =
     (if xs = [] then xs
      else final_insertion_sort lt
             (introsort_loop lt xs 0 (length xs) (lg (length xs) * 2)) 0 (length xs))"

definition gnu_library :: library where
  "gnu_library = example_library\<lparr>std_sort := gnu_sort\<rparr>"

text \<open>
  A graph with seventeen edges from the same layer: a parameter (node 0) is each of the
  seventeen inputs of a concatenation (node 1).
\<close>

definition wide_heap :: heap where
  "wide_heap =
     (\<lambda>p. typed_node ''Unused'' 0)
       (0 := (typed_node ''Parameter'' 0)
               \<lparr>node_class := ParameterOp, outputs := [static_f32 [2]]\<rparr>,
        1 := (typed_node ''Concat'' 0)
               \<lparr>inputs := replicate 17 (0, 0), outputs := [static_f32 [34]]\<rparr>)"

definition wide :: Function where
  "wide = \<lparr>get_ordered_ops = [0, 1], get_ops = [0, 1], get_friendly_name = ''wide''\<rparr>"

text \<open>
  An example graph: a parameter (node 0) and a constant (node 1) are the inputs of an
  addition (node 2), whose output is the result (node 3).
\<close>

definition example_heap :: heap where
  "example_heap =
     (\<lambda>p. typed_node ''Unused'' 0)
       (0 := (typed_node ''Parameter'' 0)
               \<lparr>friendly_name := ''input'', node_class := ParameterOp,
                outputs := [static_f32 [1, 2]],
                attributes := [(''element_type'', AString ''f32''), (''shape'', AInt64Vector [1, 2])]\<rparr>,
        1 := (typed_node ''Constant'' 0)
               \<lparr>friendly_name := ''input'',
                outputs := [static_f32 [1]],
                attributes := [(''element_type'', AString ''f32''), (''shape'', AInt64Vector [1]),
                               (''value'', AVoidPtr (AlignedBufferAdapter [0, 0, 128, 63]))]\<rparr>,
        2 := (typed_node ''Add'' 1)
               \<lparr>friendly_name := ''add'', inputs := [(0, 0), (1, 0)],
                outputs := [static_f32 [1, 2]]\<rparr>,
        3 := (typed_node ''Result'' 0)
               \<lparr>friendly_name := ''output'', node_class := ResultOp, inputs := [(2, 0)],
                outputs := [static_f32 [1, 2]]\<rparr>)"

definition example_function :: Function where
  "example_function =
     \<lparr>get_ordered_ops = [0, 1, 2, 3], get_ops = [0, 1, 2, 3], get_friendly_name = ''example''\<rparr>"

definition example_edges :: "Edge list" where
  "example_edges =
     [\<lparr>from_layer = 0, from_port = 0, to_layer = 2, to_port = 0\<rparr>,
      \<lparr>from_layer = 1, from_port = 0, to_layer = 2, to_port = 1\<rparr>,
      \<lparr>from_layer = 2, from_port = 2, to_layer = 3, to_port = 0\<rparr>]"

definition example_layers :: "xml_node list" where
  "example_layers =
     [Element ''layer''
        [(''id'', XInt 0), (''name'', XString ''input''), (''type'', XString ''Parameter''),
         (''version'', XString ''opset1'')]
        [Element ''data''
           [(''element_type'', XString ''f32''), (''shape'', XString ''1, 2'')] [],
         Element ''output'' []
           [Element ''port'' [(''id'', XInt 0), (''precision'', XString ''FP32'')]
              [Element ''dim'' [] [PCData ''1''], Element ''dim'' [] [PCData ''2'']]]],
      Element ''layer''
        [(''id'', XInt 1), (''name'', XString ''input0''), (''type'', XString ''Const''),
         (''version'', XString ''opset1'')]
        [Element ''data''
           [(''element_type'', XString ''f32''), (''shape'', XString ''1''),
            (''offset'', XInt 0), (''size'', XInt 4)] [],
         Element ''output'' []
           [Element ''port'' [(''id'', XInt 0), (''precision'', XString ''FP32'')]
              [Element ''dim'' [] [PCData ''1'']]]],
      Element ''layer''
        [(''id'', XInt 2), (''name'', XString ''add''), (''type'', XString ''Add''),
         (''version'', XString ''opset1'')]
        [Element ''input'' []
           [Element ''port'' [(''id'', XInt 0)]
              [Element ''dim'' [] [PCData ''1''], Element ''dim'' [] [PCData ''2'']],
            Element ''port'' [(''id'', XInt 1)] [Element ''dim'' [] [PCData ''1'']]],
         Element ''output'' []
           [Element ''port'' [(''id'', XInt 2), (''precision'', XString ''FP32'')]
              [Element ''dim'' [] [PCData ''1''], Element ''dim'' [] [PCData ''2'']]]],
      Element ''layer''
        [(''id'', XInt 3), (''name'', XString ''output''), (''type'', XString ''Result''),
         (''version'', XString ''opset1'')]
        [Element ''input'' []
           [Element ''port'' [(''id'', XInt 0)]
              [Element ''dim'' [] [PCData ''1''], Element ''dim'' [] [PCData ''2'']]]]]"

text \<open>
  The example graph with a sub-graph node (node 4) between the addition and the result;
  its function has the nodes 10 and 11.
\<close>

definition nested_heap :: heap where
  "nested_heap =
     example_heap
       (3 := (typed_node ''Result'' 0)
               \<lparr>friendly_name := ''output'', node_class := ResultOp, inputs := [(4, 0)],
                outputs := [static_f32 [1, 2]]\<rparr>,
        4 := (typed_node ''TensorIterator'' 0)
               \<lparr>friendly_name := ''loop'',
                node_class := SubGraphOp \<lparr>get_ordered_ops = [10, 11], get_ops = [10, 11],
                                          get_friendly_name = ''body''\<rparr>,
                inputs := [(2, 0)], outputs := [static_f32 [1, 2]]\<rparr>,
        10 := (typed_node ''Parameter'' 0)
               \<lparr>friendly_name := ''body_in'', node_class := ParameterOp,
                outputs := [static_f32 [1, 2]]\<rparr>,
        11 := (typed_node ''Result'' 0)
               \<lparr>friendly_name := ''body_out'', node_class := ResultOp, inputs := [(10, 0)],
                outputs := [static_f32 [1, 2]]\<rparr>)"

definition nested_function :: Function where
  "nested_function =
     \<lparr>get_ordered_ops = [0, 1, 2, 4, 3], get_ops = [0, 1, 2, 4, 3], get_friendly_name = ''nested''\<rparr>"


text \<open>
  A graph with dynamic shapes. The parameter \<open>data\<close> (node 0) has one dimension from 1 to
  10, the parameter \<open>pattern\<close> (node 1) is a vector of one \<open>i64\<close>; both are the inputs of a
  sub-graph node (node 2), whose output is the result (node 3). The function of the
  sub-graph node has a parameter for each of the two inputs (nodes 10 and 11), a
  \<open>Reshape\<close> of the first to the shape the second holds (node 12), the \<open>ShapeOf\<close> of that
  (node 13) and its result (node 14). The pattern of the \<open>Reshape\<close> is no constant, so that
  its output has one dimension with no upper bound; the shape of that output is a vector
  of one \<open>i64\<close>, whatever the dimension, and so is the output of the sub-graph node.
\<close>

definition open_heap :: heap where
  "open_heap =
     (\<lambda>p. typed_node ''Unused'' 0)
       (0 := (typed_node ''Parameter'' 0)
               \<lparr>friendly_name := ''data'', node_class := ParameterOp,
                outputs := [\<lparr>element_type = f32,
                             partial_shape = RankStatic [Dimension 1 (Some 10)]\<rparr>]\<rparr>,
        1 := (typed_node ''Parameter'' 0)
               \<lparr>friendly_name := ''pattern'', node_class := ParameterOp,
                outputs := [\<lparr>element_type = i64,
                             partial_shape = RankStatic [Dimension 1 (Some 1)]\<rparr>]\<rparr>,
        2 := (typed_node ''TensorIterator'' 0)
               \<lparr>friendly_name := ''loop'',
                node_class := SubGraphOp \<lparr>get_ordered_ops = [10, 11, 12, 13, 14],
                                          get_ops = [10, 11, 12, 13, 14],
                                          get_friendly_name = ''body''\<rparr>,
                inputs := [(0, 0), (1, 0)],
                outputs := [\<lparr>element_type = i64,
                             partial_shape = RankStatic [Dimension 1 (Some 1)]\<rparr>]\<rparr>,
        3 := (typed_node ''Result'' 0)
               \<lparr>friendly_name := ''output'', node_class := ResultOp, inputs := [(2, 0)],
                outputs := [\<lparr>element_type = i64,
                             partial_shape = RankStatic [Dimension 1 (Some 1)]\<rparr>]\<rparr>,
        10 := (typed_node ''Parameter'' 0)
               \<lparr>friendly_name := ''body_data'', node_class := ParameterOp,
                outputs := [\<lparr>element_type = f32,
                             partial_shape = RankStatic [Dimension 1 (Some 10)]\<rparr>]\<rparr>,
        11 := (typed_node ''Parameter'' 0)
               \<lparr>friendly_name := ''body_pattern'', node_class := ParameterOp,
                outputs := [\<lparr>element_type = i64,
                             partial_shape = RankStatic [Dimension 1 (Some 1)]\<rparr>]\<rparr>,
        12 := (typed_node ''Reshape'' 1)
               \<lparr>friendly_name := ''reshape'', inputs := [(10, 0), (11, 0)],
                outputs := [\<lparr>element_type = f32,
                             partial_shape = RankStatic [Dimension 0 None]\<rparr>]\<rparr>,
        13 := (typed_node ''ShapeOf'' 3)
               \<lparr>friendly_name := ''shape'', inputs := [(12, 0)],
                outputs := [\<lparr>element_type = i64,
                             partial_shape = RankStatic [Dimension 1 (Some 1)]\<rparr>]\<rparr>,
        14 := (typed_node ''Result'' 0)
               \<lparr>friendly_name := ''body_out'', node_class := ResultOp, inputs := [(13, 0)],
                outputs := [\<lparr>element_type = i64,
                             partial_shape = RankStatic [Dimension 1 (Some 1)]\<rparr>]\<rparr>)"

definition open_function :: Function where
  "open_function =
     \<lparr>get_ordered_ops = [0, 1, 2, 3], get_ops = [0, 1, 2, 3], get_friendly_name = ''open''\<rparr>"

text \<open>
  A node (node 0) and its clone (node 1000) with one output of three dimensions: from 1
  to 10, the length 3, and from 2 on with no upper bound.
\<close>

definition bounds_node :: Node where
  "bounds_node =
     (typed_node ''Reshape'' 1)
       \<lparr>outputs := [\<lparr>element_type = f32,
                    partial_shape = RankStatic [Dimension 1 (Some 10), Dimension 3 (Some 3),
                                                Dimension 2 None]\<rparr>]\<rparr>"

definition bounds_heap :: heap where
  "bounds_heap = (\<lambda>p. typed_node ''Unused'' 0)(0 := bounds_node, 1000 := bounds_node)"

text \<open>The function of that one node.\<close>

definition bounds_function :: Function where
  "bounds_function =
     \<lparr>get_ordered_ops = [0], get_ops = [0], get_friendly_name = ''bounds''\<rparr>"

section \<open>Output paths: the precondition of the constructor\<close>

lemma rfind_from_le: "rfind_from s pat i = Some j \<Longrightarrow> j \<le> i"
  by (induction i) (auto split: if_splits)

lemma rfind_from_top:
  "rfind_from s pat i = Some i \<longleftrightarrow> take (length pat) (drop i s) = pat"
proof (cases i)
  case 0
  then show ?thesis by simp
next
  case (Suc k)
  have "rfind_from s pat k \<noteq> Some (Suc k)"
    using rfind_from_le [of s pat k "Suc k"] by auto
  with Suc show ?thesis by simp
qed

lemma rfind_at_end:
  "rfind s pat = Some (length s - length pat) \<longleftrightarrow> suffix pat s"
proof (cases "length s < length pat")
  case True
  then have "\<not> suffix pat s"
    using suffix_length_le [of pat s] by auto
  with True show ?thesis by (simp add: rfind_def)
next
  case False
  then have le: "length pat \<le> length s" by simp
  have "take (length pat) (drop (length s - length pat) s) = pat \<longleftrightarrow> suffix pat s"
  proof
    assume a: "take (length pat) (drop (length s - length pat) s) = pat"
    have "length (drop (length s - length pat) s) = length pat" using le by simp
    then have "drop (length s - length pat) s = pat" using a by (metis take_all_iff order_refl)
    then show "suffix pat s" by (metis suffix_drop)
  next
    assume "suffix pat s"
    then obtain zs where "s = zs @ pat" by (auto simp: suffix_def)
    then show "take (length pat) (drop (length s - length pat) s) = pat" by simp
  qed
  with False show ?thesis by (simp add: rfind_def rfind_from_top)
qed

lemma valid_xml_path_iff:
  "valid_xml_path path = Inr p \<longleftrightarrow> p = path \<and> 4 < length path \<and> suffix ''.xml'' path"
  using rfind_at_end [of path "''.xml''"]
  by (auto simp: valid_xml_path_def Let_def)

lemma valid_xml_path_stem:
  "(4 < length path \<and> suffix ''.xml'' path) \<longleftrightarrow> (\<exists>stem. stem \<noteq> [] \<and> path = stem @ ''.xml'')"
  by (auto simp: suffix_def)

text \<open>
  Claim C10. A structural output path that does not end in the extension \<open>.xml\<close>, or
  that is not longer than the extension alone, makes the constructor fail with a check
  failure: no object is built, and since only \<^verbatim>\<open>run_on_function\<close> on the built object
  opens files, no I/O has been attempted. On a path \<open>stem.xml\<close> with a non-empty stem the
  constructor succeeds, keeps a given (non-empty) binary path, and derives an omitted
  (empty) one as \<open>stem.bin\<close>.
\<close>

theorem Serialize_ctor_paths:
  "(\<not> (4 < length xmlPath \<and> suffix ''.xml'' xmlPath) \<longrightarrow>
      (\<exists>msg. Serialize_ctor xmlPath binPath version custom_opsets = Inl (CheckFailure msg)))
   \<and> (\<forall>stem. stem \<noteq> [] \<and> xmlPath = stem @ ''.xml'' \<longrightarrow>
        Serialize_ctor xmlPath binPath version custom_opsets =
          Inr \<lparr>m_xmlPath = xmlPath,
               m_binPath = (if binPath = [] then stem @ ''.bin'' else binPath),
               m_version = version, m_custom_opsets = custom_opsets\<rparr>)"
proof (intro conjI impI allI)
  assume bad: "\<not> (4 < length xmlPath \<and> suffix ''.xml'' xmlPath)"
  then have "\<forall>p. valid_xml_path xmlPath \<noteq> Inr p"
    by (simp add: valid_xml_path_iff)
  then obtain e where e: "valid_xml_path xmlPath = Inl e"
    by (cases "valid_xml_path xmlPath") auto
  then have "\<exists>msg. e = CheckFailure msg"
    by (auto simp: valid_xml_path_def Let_def split: if_splits)
  with e show "\<exists>msg. Serialize_ctor xmlPath binPath version custom_opsets = Inl (CheckFailure msg)"
    by (auto simp: Serialize_ctor_def)
next
  fix stem
  assume st: "stem \<noteq> [] \<and> xmlPath = stem @ ''.xml''"
  then have v: "valid_xml_path xmlPath = Inr xmlPath"
    using valid_xml_path_iff [of xmlPath xmlPath] valid_xml_path_stem [of xmlPath] by blast
  have len: "4 < length xmlPath" using st by (cases stem) auto
  have "replace xmlPath (length xmlPath - length ''bin'') (length ''bin'') ''bin'' = stem @ ''.bin''"
    using st by (simp add: replace_def)
  then have "provide_bin_path xmlPath binPath =
      Inr (if binPath = [] then stem @ ''.bin'' else binPath)"
    using len by (simp add: provide_bin_path_def Let_def)
  with v show "Serialize_ctor xmlPath binPath version custom_opsets =
          Inr \<lparr>m_xmlPath = xmlPath,
               m_binPath = (if binPath = [] then stem @ ''.bin'' else binPath),
               m_version = version, m_custom_opsets = custom_opsets\<rparr>"
    by (simp add: Serialize_ctor_def)
qed

theorem Serialize_ctor_paths_witness:
  "(\<exists>msg. Serialize_ctor ''.xml'' [] IR_V10 [] = Inl (CheckFailure msg))
   \<and> (\<exists>msg. Serialize_ctor ''model.txt'' [] IR_V10 [] = Inl (CheckFailure msg))
   \<and> Serialize_ctor ''m.xml'' [] IR_V10 [] =
       Inr \<lparr>m_xmlPath = ''m.xml'', m_binPath = ''m.bin'', m_version = IR_V10,
            m_custom_opsets = []\<rparr>
   \<and> Serialize_ctor ''m.xml'' ''w.dat'' IR_V10 [] =
       Inr \<lparr>m_xmlPath = ''m.xml'', m_binPath = ''w.dat'', m_version = IR_V10,
            m_custom_opsets = []\<rparr>"
proof -
  have s1: "\<not> (4 < length ''.xml'' \<and> suffix ''.xml'' ''.xml'')" by simp
  have s2: "\<not> (4 < length ''model.txt'' \<and> suffix ''.xml'' ''model.txt'')"
    by (simp add: suffix_def)
  have s3: "''m'' \<noteq> [] \<and> ''m.xml'' = ''m'' @ ''.xml''" by simp
  note a = Serialize_ctor_paths [of "''.xml''" "[]" IR_V10 "[]", THEN conjunct1, rule_format, OF s1]
  note b = Serialize_ctor_paths [of "''model.txt''" "[]" IR_V10 "[]", THEN conjunct1, rule_format, OF s2]
  note c = Serialize_ctor_paths [of "''m.xml''" "[]" IR_V10 "[]", THEN conjunct2, rule_format, OF s3]
  note d = Serialize_ctor_paths [of "''m.xml''" "''w.dat''" IR_V10 "[]", THEN conjunct2, rule_format, OF s3]
  have c': "Serialize_ctor ''m.xml'' [] IR_V10 [] =
       Inr \<lparr>m_xmlPath = ''m.xml'', m_binPath = ''m.bin'', m_version = IR_V10,
            m_custom_opsets = []\<rparr>"
    using c by simp
  have d': "Serialize_ctor ''m.xml'' ''w.dat'' IR_V10 [] =
       Inr \<lparr>m_xmlPath = ''m.xml'', m_binPath = ''w.dat'', m_version = IR_V10,
            m_custom_opsets = []\<rparr>"
    using d by simp
  from a b c' d' show ?thesis by (intro conjI)
qed

section \<open>Unique names\<close>

lemma generate_unique_name_least:
  "\<exists>m\<ge>k. generate_unique_name S b k = b @ to_string m \<and> b @ to_string m |\<notin>| S
     \<and> (\<forall>j. k \<le> j \<and> j < m \<longrightarrow> b @ to_string j |\<in>| S)"
proof (induction S b k rule: generate_unique_name.induct)
  case (1 S b k)
  show ?case
  proof (cases "b @ to_string k |\<notin>| S")
    case True
    then have "generate_unique_name S b k = b @ to_string k"
      by (subst generate_unique_name.simps) (simp add: Let_def)
    with True show ?thesis by (intro exI [of _ k]) auto
  next
    case False
    then have eq: "generate_unique_name S b k = generate_unique_name S b (Suc k)"
      by (subst generate_unique_name.simps) (simp add: Let_def)
    from "1.IH" [OF refl] False
    obtain m where m: "Suc k \<le> m" "generate_unique_name S b (Suc k) = b @ to_string m"
      "b @ to_string m |\<notin>| S" "\<forall>j. Suc k \<le> j \<and> j < m \<longrightarrow> b @ to_string j |\<in>| S"
      by auto
    have "\<forall>j. k \<le> j \<and> j < m \<longrightarrow> b @ to_string j |\<in>| S"
    proof (intro allI impI)
      fix j assume j: "k \<le> j \<and> j < m"
      show "b @ to_string j |\<in>| S"
      proof (cases "j = k")
        case True with False show ?thesis by simp
      next
        case False with j m(4) show ?thesis by simp
      qed
    qed
    with m eq show ?thesis by (intro exI [of _ m]) auto
  qed
qed

lemma get_node_unique_name_spec:
  assumes "get_node_unique_name S n = (r, S')"
  shows "S' = finsert r S" and "r |\<notin>| S"
    and "friendly_name n |\<notin>| S \<Longrightarrow> r = friendly_name n"
    and "friendly_name n |\<in>| S \<Longrightarrow>
           \<exists>k. r = friendly_name n @ to_string k \<and> (\<forall>j<k. friendly_name n @ to_string j |\<in>| S)"
proof -
  from assms show "S' = finsert r S"
    by (auto simp: get_node_unique_name_def Let_def)
  from generate_unique_name_least [of 0 S "friendly_name n"]
  obtain m where m: "generate_unique_name S (friendly_name n) 0 = friendly_name n @ to_string m"
    "friendly_name n @ to_string m |\<notin>| S"
    "\<forall>j. j < m \<longrightarrow> friendly_name n @ to_string j |\<in>| S" by auto
  from assms m show "r |\<notin>| S"
    by (auto simp: get_node_unique_name_def Let_def split: if_splits)
  from assms show "friendly_name n |\<notin>| S \<Longrightarrow> r = friendly_name n"
    by (auto simp: get_node_unique_name_def Let_def)
  from assms m show "friendly_name n |\<in>| S \<Longrightarrow>
           \<exists>k. r = friendly_name n @ to_string k \<and> (\<forall>j<k. friendly_name n @ to_string j |\<in>| S)"
    by (auto simp: get_node_unique_name_def Let_def)
qed

lemma length_unique_names_of [simp]: "length (unique_names_of S ns) = length ns"
  by (induction ns arbitrary: S) (auto split: prod.splits)

lemma unique_names_of_spec:
  "distinct (unique_names_of S ns) \<and> set (unique_names_of S ns) \<inter> fset S = {}
   \<and> (\<forall>i<length ns. allocated_right (fset S \<union> set (take i (unique_names_of S ns)))
          (friendly_name (ns ! i)) (unique_names_of S ns ! i))"
proof (induction ns arbitrary: S)
  case Nil
  show ?case by simp
next
  case (Cons n ns)
  obtain r S' where g: "get_node_unique_name S n = (r, S')"
    by (cases "get_node_unique_name S n")
  note sp = get_node_unique_name_spec [OF g]
  have names: "unique_names_of S (n # ns) = r # unique_names_of S' ns"
    using g by simp
  note ih = Cons.IH [of S']
  have d: "distinct (unique_names_of S (n # ns))"
    unfolding names using ih sp(1) by auto
  have disj: "set (unique_names_of S (n # ns)) \<inter> fset S = {}"
    unfolding names using ih sp(1,2) by auto
  have "allocated_right (fset S \<union> set (take i (unique_names_of S (n # ns))))
          (friendly_name ((n # ns) ! i)) (unique_names_of S (n # ns) ! i)"
    if "i < length (n # ns)" for i
  proof (cases i)
    case 0
    then show ?thesis unfolding names using sp by (auto simp: allocated_right_def)
  next
    case (Suc k)
    with that have "k < length ns" by simp
    with ih have "allocated_right (fset S' \<union> set (take k (unique_names_of S' ns)))
          (friendly_name (ns ! k)) (unique_names_of S' ns ! k)" by blast
    moreover have "fset S' \<union> set (take k (unique_names_of S' ns))
        = fset S \<union> set (take i (unique_names_of S (n # ns)))"
      unfolding names using sp(1) Suc by auto
    ultimately show ?thesis unfolding names using Suc by simp
  qed
  with d disj show ?case by blast
qed

text \<open>
  Claim C3. For any sequence of candidate names (the friendly names of the nodes \<open>ns\<close>)
  given to the allocator, starting from the empty set: the returned names are pairwise
  distinct; the \<open>i\<close>-th returned name is none of the names returned before it; it is the
  candidate itself when the candidate has not been returned before; and otherwise it is
  the candidate followed by the decimal numeral of the least \<open>k \<ge> 0\<close> for which that
  concatenation has not been returned before.
\<close>

theorem unique_names_distinct_least:
  "distinct (unique_names_of {||} ns)
   \<and> (\<forall>i<length ns.
        let prev = set (take i (unique_names_of {||} ns));
            c = friendly_name (ns ! i);
            r = unique_names_of {||} ns ! i
        in r \<notin> prev \<and> (c \<notin> prev \<longrightarrow> r = c)
           \<and> (c \<in> prev \<longrightarrow> (\<exists>k. r = c @ to_string k \<and> (\<forall>j<k. c @ to_string j \<in> prev))))"
  using unique_names_of_spec [of "{||}" ns]
  by (simp add: allocated_right_def Let_def)

lemma ex_names:
  "unique_names_of {||}
     [named_node ''conv'', named_node ''conv'', named_node ''conv0'', named_node ''conv'']
   = [''conv'', ''conv0'', ''conv00'', ''conv1'']"
  by (simp add: named_node_def get_node_unique_name_def generate_unique_name.simps
        to_string.simps digit_char_def Let_def)

theorem unique_names_distinct_least_witness:
  "unique_names_of {||}
     [named_node ''conv'', named_node ''conv'', named_node ''conv0'', named_node ''conv'']
   = [''conv'', ''conv0'', ''conv00'', ''conv1'']
   \<and> distinct (unique_names_of {||}
     [named_node ''conv'', named_node ''conv'', named_node ''conv0'', named_node ''conv''])
   \<and> ''conv'' \<in> set (take 3 [''conv'', ''conv0'', ''conv00'', ''conv1''])
   \<and> (\<exists>k. ''conv1'' = ''conv'' @ to_string k
          \<and> (\<forall>j<k. ''conv'' @ to_string j \<in> set (take 3 [''conv'', ''conv0'', ''conv00'', ''conv1''])))"
proof -
  let ?ns = "[named_node ''conv'', named_node ''conv'', named_node ''conv0'', named_node ''conv'']"
  note t = unique_names_distinct_least [of ?ns]
  from t have d: "distinct (unique_names_of {||} ?ns)" by (rule conjunct1)
  have m: "''conv'' \<in> set (take 3 [''conv'', ''conv0'', ''conv00'', ''conv1''])" by simp
  from t have "let prev = set (take 3 (unique_names_of {||} ?ns));
            c = friendly_name (?ns ! 3);
            r = unique_names_of {||} ?ns ! 3
        in r \<notin> prev \<and> (c \<notin> prev \<longrightarrow> r = c)
           \<and> (c \<in> prev \<longrightarrow> (\<exists>k. r = c @ to_string k \<and> (\<forall>j<k. c @ to_string j \<in> prev)))"
    by (elim conjE allE [of _ 3]) simp
  then have "\<exists>k. ''conv1'' = ''conv'' @ to_string k
          \<and> (\<forall>j<k. ''conv'' @ to_string j \<in> set (take 3 [''conv'', ''conv0'', ''conv00'', ''conv1'']))"
    unfolding ex_names Let_def using m by (simp add: named_node_def)
  with d m ex_names show ?thesis by blast
qed

section \<open>Op set names\<close>

lemma opsets_loop_first:
  "i < length os \<Longrightarrow> contains_op_type (os ! i) n \<Longrightarrow> \<forall>j<i. \<not> contains_op_type (os ! j) n
     \<Longrightarrow> opsets_loop os n idx = Some (''opset'' @ to_string (idx + i + 1))"
proof (induction os arbitrary: i idx)
  case Nil
  then show ?case by simp
next
  case (Cons a os)
  show ?case
  proof (cases i)
    case 0
    with Cons.prems show ?thesis by simp
  next
    case (Suc k)
    with Cons.prems have a: "\<not> contains_op_type a n" by auto
    from Suc Cons.prems have "k < length os" "contains_op_type (os ! k) n"
      "\<forall>j<k. \<not> contains_op_type (os ! j) n" by auto
    from Cons.IH [OF this, of "idx + 1"] a Suc show ?thesis by simp
  qed
qed

lemma opsets_loop_none:
  "\<forall>i<length os. \<not> contains_op_type (os ! i) n \<Longrightarrow> opsets_loop os n idx = None"
proof (induction os arbitrary: idx)
  case Nil
  then show ?case by simp
next
  case (Cons a os)
  from Cons.prems have "\<not> contains_op_type a n" by auto
  moreover from Cons.prems have "\<forall>i<length os. \<not> contains_op_type (os ! i) n" by auto
  ultimately show ?case using Cons.IH by simp
qed

lemma custom_opsets_loop_first:
  "k < length cs \<Longrightarrow> contains_op_type (snd (cs ! k)) n
     \<Longrightarrow> \<forall>j<k. \<not> contains_op_type (snd (cs ! j)) n
     \<Longrightarrow> custom_opsets_loop cs n = Some (fst (cs ! k))"
proof (induction cs arbitrary: k)
  case Nil
  then show ?case by simp
next
  case (Cons c cs)
  obtain name opset where c: "c = (name, opset)" by (cases c)
  show ?case
  proof (cases k)
    case 0
    with Cons.prems c show ?thesis by simp
  next
    case (Suc m)
    with Cons.prems c have a: "\<not> contains_op_type opset n" by auto
    from Suc Cons.prems have "m < length cs" "contains_op_type (snd (cs ! m)) n"
      "\<forall>j<m. \<not> contains_op_type (snd (cs ! j)) n" by auto
    from Cons.IH [OF this] a Suc c show ?thesis by simp
  qed
qed

lemma custom_opsets_loop_none:
  "\<forall>k<length cs. \<not> contains_op_type (snd (cs ! k)) n \<Longrightarrow> custom_opsets_loop cs n = None"
proof (induction cs)
  case Nil
  then show ?case by simp
next
  case (Cons c cs)
  obtain name opset where c: "c = (name, opset)" by (cases c)
  from Cons.prems c have "\<not> contains_op_type opset n" by auto
  moreover from Cons.prems have "\<forall>k<length cs. \<not> contains_op_type (snd (cs ! k)) n" by auto
  ultimately show ?case using Cons.IH c by simp
qed

text \<open>
  Claim C5. For every node type and custom registry: when some built-in set (one of the
  five of \<open>opsets\<close>, oldest first) contains the type of the node, the resolver gives the
  label \<open>opset\<close>\<open>i+1\<close> of the oldest such set, at index \<open>i\<close>, whatever the custom
  registry holds; when no built-in set contains it, the resolver gives the name of the
  first entry of the custom registry, in its iteration order, whose set contains it;
  and when there is none either, the resolver gives \<open>experimental\<close>.
\<close>

theorem get_opset_name_oldest_first:
  "(\<forall>i<length (opsets lib).
      contains_op_type (opsets lib ! i) n \<and> (\<forall>j<i. \<not> contains_op_type (opsets lib ! j) n)
      \<longrightarrow> get_opset_name lib n custom_opsets = ''opset'' @ to_string (i + 1))
   \<and> ((\<forall>i<length (opsets lib). \<not> contains_op_type (opsets lib ! i) n) \<longrightarrow>
        (\<forall>k<length custom_opsets.
           contains_op_type (snd (custom_opsets ! k)) n
           \<and> (\<forall>j<k. \<not> contains_op_type (snd (custom_opsets ! j)) n)
           \<longrightarrow> get_opset_name lib n custom_opsets = fst (custom_opsets ! k))
        \<and> ((\<forall>k<length custom_opsets. \<not> contains_op_type (snd (custom_opsets ! k)) n)
           \<longrightarrow> get_opset_name lib n custom_opsets = ''experimental''))"
proof (intro conjI allI impI)
  fix i
  assume "i < length (opsets lib)"
    and "contains_op_type (opsets lib ! i) n \<and> (\<forall>j<i. \<not> contains_op_type (opsets lib ! j) n)"
  then have "opsets_loop (opsets lib) n 0 = Some (''opset'' @ to_string (0 + i + 1))"
    by (intro opsets_loop_first) auto
  then show "get_opset_name lib n custom_opsets = ''opset'' @ to_string (i + 1)"
    by (simp add: get_opset_name_def)
next
  fix k
  assume none: "\<forall>i<length (opsets lib). \<not> contains_op_type (opsets lib ! i) n"
    and "k < length custom_opsets"
    and "contains_op_type (snd (custom_opsets ! k)) n
           \<and> (\<forall>j<k. \<not> contains_op_type (snd (custom_opsets ! j)) n)"
  then have "custom_opsets_loop custom_opsets n = Some (fst (custom_opsets ! k))"
    by (intro custom_opsets_loop_first) auto
  with opsets_loop_none [OF none, of 0]
  show "get_opset_name lib n custom_opsets = fst (custom_opsets ! k)"
    by (simp add: get_opset_name_def)
next
  assume none: "\<forall>i<length (opsets lib). \<not> contains_op_type (opsets lib ! i) n"
    and "\<forall>k<length custom_opsets. \<not> contains_op_type (snd (custom_opsets ! k)) n"
  with opsets_loop_none [OF none, of 0] custom_opsets_loop_none [of custom_opsets n]
  show "get_opset_name lib n custom_opsets = ''experimental''"
    by (simp add: get_opset_name_def)
qed

lemma length_opsets: "length (opsets lib) = 5"
  by (simp add: opsets_def)

theorem get_opset_name_oldest_first_witness:
  "get_opset_name example_library (typed_node ''ShapeOf'' 3) [(''custom'', {(''ShapeOf'', 3)})]
     = ''opset3''
   \<and> get_opset_name example_library (typed_node ''MyOp'' 0)
       [(''first'', {(''Other'', 0)}), (''custom'', {(''MyOp'', 0)})] = ''custom''
   \<and> get_opset_name example_library (typed_node ''MyOp'' 0) [(''first'', {(''Other'', 0)})]
       = ''experimental''"
proof -
  let ?lib = example_library
  let ?n = "typed_node ''ShapeOf'' 3" and ?m = "typed_node ''MyOp'' 0"
  have in3: "contains_op_type (opsets ?lib ! 2) ?n \<and> (\<forall>j<2. \<not> contains_op_type (opsets ?lib ! j) ?n)"
    by (auto simp: opsets_def example_library_def contains_op_type_def typed_node_def
          less_Suc_eq numeral_2_eq_2)
  have none: "\<forall>i<length (opsets ?lib). \<not> contains_op_type (opsets ?lib ! i) ?m"
    by (auto simp: opsets_def example_library_def contains_op_type_def typed_node_def
          less_Suc_eq nth_Cons')
  have c1: "contains_op_type (snd ([(''first'', {(''Other'', 0)}), (''custom'', {(''MyOp'', 0)})] ! 1)) ?m
      \<and> (\<forall>j<1. \<not> contains_op_type
            (snd ([(''first'', {(''Other'', 0::nat)}), (''custom'', {(''MyOp'', 0)})] ! j)) ?m)"
    by (auto simp: contains_op_type_def typed_node_def)
  have c0: "\<forall>k<length [(''first'', {(''Other'', 0::nat)})].
      \<not> contains_op_type (snd ([(''first'', {(''Other'', 0)})] ! k)) ?m"
    by (auto simp: contains_op_type_def typed_node_def)
  have a: "get_opset_name ?lib ?n [(''custom'', {(''ShapeOf'', 3)})] = ''opset'' @ to_string (2 + 1)"
    using get_opset_name_oldest_first [of ?lib ?n "[(''custom'', {(''ShapeOf'', 3)})]", THEN conjunct1,
        THEN spec, of 2] in3
    by (simp add: length_opsets)
  have b: "get_opset_name ?lib ?m [(''first'', {(''Other'', 0)}), (''custom'', {(''MyOp'', 0)})]
      = fst ([(''first'', {(''Other'', 0::nat)}), (''custom'', {(''MyOp'', 0::nat)})] ! 1)"
    using get_opset_name_oldest_first [of ?lib ?m
        "[(''first'', {(''Other'', 0)}), (''custom'', {(''MyOp'', 0)})]", THEN conjunct2,
        THEN mp, OF none, THEN conjunct1, THEN spec, of 1] c1
    by simp
  have c: "get_opset_name ?lib ?m [(''first'', {(''Other'', 0)})] = ''experimental''"
    using get_opset_name_oldest_first [of ?lib ?m "[(''first'', {(''Other'', 0)})]", THEN conjunct2,
        THEN mp, OF none, THEN conjunct2, THEN mp, OF c0] .
  have "to_string (2 + 1) = ''3''"
    by (simp add: to_string.simps digit_char_def)
  with a b c show ?thesis by simp
qed

section \<open>The binary payload of a constant\<close>

lemma translate_type_name_Const_iff:
  "translate_type_name name = ''Const'' \<longleftrightarrow> name = ''Constant'' \<or> name = ''Const''"
  by (auto simp: translate_type_name_def translate_type_name_translator_def)

text \<open>
  Claim C1. When the visitor, on a node whose translated type name is \<open>Const\<close>, reaches
  the buffer-valued attribute named \<open>value\<close>, it appends two numeric fields to the
  data element: \<open>offset\<close>, the write position of the binary sink (the number of bytes it
  holds), and \<open>size\<close>, the byte size of the buffer; and it appends the bytes of the
  buffer to the sink, so that the \<open>size\<close> bytes of the sink from \<open>offset\<close> on are the
  buffer. A buffer-valued attribute with another name, or on a node whose translated
  type name is not \<open>Const\<close>, leaves the visitor as it is: no field, no byte. The type
  name the visitor holds is the type name of the node it was made for: no attribute
  changes it, unless it is \<open>GenericIE\<close>.
\<close>

theorem on_adapter_buffer_value:
  "(name = ''value'' \<and> translate_type_name (m_node_type_name v) = ''Const'' \<longrightarrow>
      (let v' = on_adapter lib name (AVoidPtr (AlignedBufferAdapter a)) v;
           offset = length (m_bin_data v);
           size = length a
       in m_xml_node v' = m_xml_node v @ [(''offset'', XInt (int offset)), (''size'', XInt (int size))]
          \<and> m_bin_data v' = m_bin_data v @ a
          \<and> length (m_bin_data v') = offset + size
          \<and> take size (drop offset (m_bin_data v')) = a
          \<and> m_node_type_name v' = m_node_type_name v))
   \<and> (\<not> (name = ''value'' \<and> translate_type_name (m_node_type_name v) = ''Const'') \<longrightarrow>
        on_adapter lib name (AVoidPtr adapter) v = v)
   \<and> (m_node_type_name v \<noteq> ''GenericIE'' \<longrightarrow>
        m_node_type_name (on_adapter lib name' a' v) = m_node_type_name v)"
proof (intro conjI)
  show "m_node_type_name v \<noteq> ''GenericIE'' \<longrightarrow>
        m_node_type_name (on_adapter lib name' a' v) = m_node_type_name v"
  proof (cases a')
    case (AVoidPtr adapter')
    then show ?thesis
      by (cases adapter') (simp_all add: on_adapter_void_ptr_def Let_def)
  qed (simp_all add: on_adapter_void_def on_adapter_bool_def on_adapter_string_def
        on_adapter_int64_def on_adapter_double_def on_adapter_vector_def)
qed (simp_all add: on_adapter_void_ptr_def append_attribute_def Let_def)

theorem on_adapter_buffer_value_witness:
  "translate_type_name (m_node_type_name (example_visitor ''Constant'')) = ''Const''
   \<and> on_adapter example_library ''value'' (AVoidPtr (AlignedBufferAdapter [3, 4, 5]))
        (example_visitor ''Constant'')
      = \<lparr>m_xml_node = [(''offset'', XInt 2), (''size'', XInt 3)],
         m_bin_data = [1, 2, 3, 4, 5], m_node_type_name = ''Constant''\<rparr>
   \<and> on_adapter example_library ''data'' (AVoidPtr (AlignedBufferAdapter [3, 4, 5]))
        (example_visitor ''Constant'') = example_visitor ''Constant''
   \<and> on_adapter example_library ''value'' (AVoidPtr (AlignedBufferAdapter [3, 4, 5]))
        (example_visitor ''Relu'') = example_visitor ''Relu''"
proof -
  let ?c = "example_visitor ''Constant''" and ?r = "example_visitor ''Relu''"
  let ?b = "AVoidPtr (AlignedBufferAdapter [3, 4, 5])"
  have c: "translate_type_name (m_node_type_name ?c) = ''Const''"
    by (simp add: example_visitor_def translate_type_name_Const_iff)
  have r: "\<not> (''value'' = ''value'' \<and> translate_type_name (m_node_type_name ?r) = ''Const'')"
    by (simp add: example_visitor_def translate_type_name_Const_iff)
  have d: "\<not> (''data'' = ''value'' \<and> translate_type_name (m_node_type_name ?c) = ''Const'')"
    by simp
  note t1 = on_adapter_buffer_value [of "''value''" ?c example_library "[3, 4, 5]", THEN conjunct1,
      THEN mp, OF conjI, OF refl c]
  note t2 = on_adapter_buffer_value [of "''data''" ?c example_library _ "AlignedBufferAdapter [3, 4, 5]",
      THEN conjunct2, THEN conjunct1, THEN mp, OF d]
  note t3 = on_adapter_buffer_value [of "''value''" ?r example_library _ "AlignedBufferAdapter [3, 4, 5]",
      THEN conjunct2, THEN conjunct1, THEN mp, OF r]
  have "on_adapter example_library ''value'' ?b ?c
      = \<lparr>m_xml_node = [(''offset'', XInt 2), (''size'', XInt 3)],
         m_bin_data = [1, 2, 3, 4, 5], m_node_type_name = ''Constant''\<rparr>"
    using t1 by (simp add: Let_def example_visitor_def XmlSerializer.equality)
  with c t2 t3 show ?thesis by simp
qed

section \<open>Layer ids\<close>

lemma create_layer_ids_loop_other:
  "x \<notin> set ns \<Longrightarrow> create_layer_ids_loop ns k m x = m x"
  by (induction ns arbitrary: k m) auto

lemma create_layer_ids_loop_nth:
  "distinct ns \<Longrightarrow> i < length ns \<Longrightarrow> create_layer_ids_loop ns k m (ns ! i) = Some (k + int i)"
proof (induction ns arbitrary: k m i)
  case Nil
  then show ?case by simp
next
  case (Cons n ns)
  show ?case
  proof (cases i)
    case 0
    with Cons.prems show ?thesis by (simp add: create_layer_ids_loop_other)
  next
    case (Suc j)
    with Cons.prems have "distinct ns" "j < length ns" by auto
    from Cons.IH [OF this, of "k + 1" "m(n \<mapsto> k)"]
    have "create_layer_ids_loop ns (k + 1) (m(n \<mapsto> k)) (ns ! j) = Some (k + 1 + int j)" .
    with Suc show ?thesis by (simp add: add.assoc)
  qed
qed

lemma dom_create_layer_ids_loop:
  "dom (create_layer_ids_loop ns k m) = dom m \<union> set ns"
  by (induction ns arbitrary: k m) auto

lemma create_layer_ids_nth:
  "distinct (get_ordered_ops f) \<Longrightarrow> i < length (get_ordered_ops f)
     \<Longrightarrow> create_layer_ids f (get_ordered_ops f ! i) = Some (int i)"
  using create_layer_ids_loop_nth [of "get_ordered_ops f" i 0 Map.empty]
  by (simp add: create_layer_ids_def)

lemma dom_create_layer_ids: "dom (create_layer_ids f) = set (get_ordered_ops f)"
  by (simp add: create_layer_ids_def dom_create_layer_ids_loop)

lemma ran_create_layer_ids:
  assumes "distinct (get_ordered_ops f)"
  shows "ran (create_layer_ids f) = int ` {0..<length (get_ordered_ops f)}"
proof (intro set_eqI iffI)
  fix v
  assume "v \<in> ran (create_layer_ids f)"
  then obtain n where n: "create_layer_ids f n = Some v" by (auto simp: ran_def)
  then have "n \<in> set (get_ordered_ops f)"
    using dom_create_layer_ids [of f] by auto
  then obtain i where i: "i < length (get_ordered_ops f)" "get_ordered_ops f ! i = n"
    by (auto simp: in_set_conv_nth)
  with create_layer_ids_nth [OF assms i(1)] n have "v = int i" by simp
  with i show "v \<in> int ` {0..<length (get_ordered_ops f)}" by simp
next
  fix v
  assume "v \<in> int ` {0..<length (get_ordered_ops f)}"
  then obtain i where i: "i < length (get_ordered_ops f)" "v = int i" by auto
  with create_layer_ids_nth [OF assms i(1)] show "v \<in> ran (create_layer_ids f)"
    by (auto simp: ran_def)
qed

lemma inj_on_create_layer_ids:
  assumes "distinct (get_ordered_ops f)"
  shows "inj_on (create_layer_ids f) (set (get_ordered_ops f))"
proof (rule inj_onI)
  fix x y
  assume "x \<in> set (get_ordered_ops f)" "y \<in> set (get_ordered_ops f)"
    and eq: "create_layer_ids f x = create_layer_ids f y"
  then obtain i j where i: "i < length (get_ordered_ops f)" "get_ordered_ops f ! i = x"
    and j: "j < length (get_ordered_ops f)" "get_ordered_ops f ! j = y"
    by (auto simp: in_set_conv_nth)
  with create_layer_ids_nth [OF assms i(1)] create_layer_ids_nth [OF assms j(1)] eq
  have "i = j" by simp
  with i j show "x = y" by simp
qed

section \<open>Edges\<close>

lemma input_edges_spec:
  "input_edges ids h node k ins = Inr es \<Longrightarrow>
     list_all2 (\<lambda>e (m, (s, x)). ids s = Some (from_layer e)
                  \<and> from_port e = int (get_input_size (h s)) + int x
                  \<and> ids node = Some (to_layer e) \<and> to_port e = int m)
       es (List.enumerate k ins)"
proof (induction ins arbitrary: k es)
  case Nil
  then show ?case by simp
next
  case (Cons i ins)
  obtain s x where i: "i = (s, x)" by (cases i)
  from Cons.prems i obtain a b es' where
    a: "ids s = Some a" and b: "ids node = Some b"
    and r: "input_edges ids h node (k + 1) ins = Inr es'"
    and es: "es = \<lparr>from_layer = a, from_port = int (get_input_size (h s)) + int x,
                   to_layer = b, to_port = int k\<rparr> # es'"
    by (auto split: option.splits sum.splits)
  from Cons.IH [OF r] a b show ?case
    unfolding es i by simp
qed

lemma input_edges_ports:
  assumes "input_edges ids h node 0 (inputs (h node)) = Inr es"
  shows "list_all2 (edge_of_port ids h) es (map (Pair node) [0..<get_input_size (h node)])"
proof -
  let ?ins = "inputs (h node)"
  note sp = input_edges_spec [OF assms]
  then have len: "length es = length ?ins"
    by (auto dest: list_all2_lengthD)
  have "edge_of_port ids h (es ! k) (node, k)" if "k < length ?ins" for k
  proof -
    from sp that len have "(\<lambda>e (m, (s, x)). ids s = Some (from_layer e)
                  \<and> from_port e = int (get_input_size (h s)) + int x
                  \<and> ids node = Some (to_layer e) \<and> to_port e = int m)
       (es ! k) (List.enumerate 0 ?ins ! k)"
      by (auto simp: list_all2_conv_all_nth simp del: nth_enumerate_eq)
    with that show ?thesis
      by (auto simp: nth_enumerate_eq edge_of_port_def split: prod.splits)
  qed
  with len show ?thesis
    by (auto simp: list_all2_conv_all_nth get_input_size_def)
qed

lemma collect_edges_ports:
  "collect_edges ids h ops = Inr es \<Longrightarrow> list_all2 (edge_of_port ids h) es (input_ports_of h ops)"
proof (induction ops arbitrary: es)
  case Nil
  then show ?case by (simp add: input_ports_of_def)
next
  case (Cons node ops)
  show ?case
  proof (cases "is_parameter (h node)")
    case True
    with Cons show ?thesis by (simp add: input_ports_of_def)
  next
    case False
    with Cons.prems obtain es1 es2 where
      e1: "input_edges ids h node 0 (inputs (h node)) = Inr es1"
      and e2: "collect_edges ids h ops = Inr es2" and es: "es = es1 @ es2"
      by (auto split: sum.splits)
    from input_edges_ports [OF e1] Cons.IH [OF e2] False show ?thesis
      unfolding es by (auto simp: input_ports_of_def intro: list_all2_appendI)
  qed
qed

lemma input_edges_succeeds:
  "ids node \<noteq> None \<Longrightarrow> \<forall>(s, x) \<in> set ins. ids s \<noteq> None
     \<Longrightarrow> \<exists>es. input_edges ids h node k ins = Inr es"
proof (induction ins arbitrary: k)
  case Nil
  then show ?case by simp
next
  case (Cons i ins)
  obtain s x where i: "i = (s, x)" by (cases i)
  from Cons.prems i obtain a b where a: "ids s = Some a" and b: "ids node = Some b" by auto
  from Cons.prems have "\<forall>(s, x) \<in> set ins. ids s \<noteq> None" by auto
  from Cons.IH [OF Cons.prems(1) this, of "k + 1"] obtain es where
    "input_edges ids h node (k + 1) ins = Inr es" by auto
  with a b i show ?case by simp
qed

lemma collect_edges_succeeds:
  "\<forall>node \<in> set ops. ids node \<noteq> None \<and> (\<forall>(s, x) \<in> set (inputs (h node)). ids s \<noteq> None)
     \<Longrightarrow> \<exists>es. collect_edges ids h ops = Inr es"
proof (induction ops)
  case Nil
  then show ?case by simp
next
  case (Cons node ops)
  from Cons obtain es2 where e2: "collect_edges ids h ops = Inr es2" by auto
  from Cons.prems have "ids node \<noteq> None" "\<forall>(s, x) \<in> set (inputs (h node)). ids s \<noteq> None"
    by auto
  from input_edges_succeeds [OF this, of h 0] obtain es1 where
    "input_edges ids h node 0 (inputs (h node)) = Inr es1" by auto
  with e2 show ?case by simp
qed

subsection \<open>The contract of the sort\<close>

lemma mset_insert_by: "mset (insert_by lt x xs) = add_mset x (mset xs)"
  by (induction xs) auto

lemma mset_insertion_sort: "mset (insertion_sort lt xs) = mset xs"
  by (induction xs) (auto simp: insertion_sort_def mset_insert_by)

lemma set_insert_by: "set (insert_by lt x xs) = insert x (set xs)"
  using mset_insert_by [of lt x xs, THEN arg_cong, of set_mset] by simp

lemma sorted_insert_by_from_layer:
  "sorted_wrt (\<lambda>a b. \<not> by_from_layer b a) xs
     \<Longrightarrow> sorted_wrt (\<lambda>a b. \<not> by_from_layer b a) (insert_by by_from_layer x xs)"
  by (induction xs) (auto simp: set_insert_by by_from_layer_def)

lemma sorted_insertion_sort:
  "sorted_wrt (\<lambda>a b. \<not> by_from_layer b a) (insertion_sort by_from_layer xs)"
  by (induction xs) (auto simp: insertion_sort_def sorted_insert_by_from_layer)

lemma insertion_sort_post: "std_sort_post by_from_layer xs (insertion_sort by_from_layer xs)"
  by (simp add: std_sort_post_def mset_insertion_sort sorted_insertion_sort)

lemma example_library_conforms: "std_sort_conforms example_library"
  by (simp add: std_sort_conforms_def example_library_def insertion_sort_post)

lemma std_sort_post_sorted:
  "std_sort_post by_from_layer xs ys \<Longrightarrow> sorted (map from_layer ys)"
  by (simp add: std_sort_post_def sorted_map by_from_layer_def not_less)

lemma create_edge_mapping_perm:
  assumes "std_sort_conforms lib \<and> create_edge_mapping lib layer_ids h f = Inr edge_mapping"
  shows "\<exists>edges. collect_edges layer_ids h (get_ordered_ops f) = Inr edges
           \<and> mset edge_mapping = mset edges \<and> sorted (map from_layer edge_mapping)"
proof -
  from assms obtain edges where
    c: "collect_edges layer_ids h (get_ordered_ops f) = Inr edges"
    and m: "edge_mapping = std_sort lib by_from_layer edges"
    by (auto simp: create_edge_mapping_def split: sum.splits)
  from assms have p: "std_sort_post by_from_layer edges edge_mapping"
    unfolding m by (simp add: std_sort_conforms_def)
  then have "mset edge_mapping = mset edges" by (simp add: std_sort_post_def)
  with c std_sort_post_sorted [OF p] show ?thesis by simp
qed

text \<open>
  Claim C8, as the code has it. After all edges are collected, the edge list is sorted
  by source layer id in ascending order by \<^verbatim>\<open>std::sort\<close>: with a sort that keeps its
  contract, the result holds the collected edges, each as often as it was collected,
  and the source layer ids ascend along it. (Nothing is said of the order of two edges
  with the same source layer id.)
\<close>

theorem create_edge_mapping_sorted:
  assumes "std_sort_conforms lib"
    and "create_edge_mapping lib layer_ids h f = Inr edge_mapping"
  shows "\<exists>edges. collect_edges layer_ids h (get_ordered_ops f) = Inr edges
           \<and> mset edge_mapping = mset edges
           \<and> sorted (map from_layer edge_mapping)"
  using assms by (intro create_edge_mapping_perm) simp

lemma create_layer_ids_fan: "create_layer_ids fan = [0 \<mapsto> 0, 1 \<mapsto> 1]"
  by (simp add: create_layer_ids_def fan_def)

lemma get_ordered_ops_fan: "get_ordered_ops fan = [0, 1]"
  by (simp add: fan_def)

lemma collect_edges_fan:
  "collect_edges (create_layer_ids fan) fan_heap (get_ordered_ops fan) = Inr [fan_edge 0, fan_edge 1]"
  by (simp add: create_layer_ids_fan get_ordered_ops_fan fan_heap_def typed_node_def
        is_parameter_def get_input_size_def fan_edge_def)

theorem create_edge_mapping_sorted_witness:
  "std_sort_conforms example_library
   \<and> create_edge_mapping example_library (create_layer_ids fan) fan_heap fan
       = Inr [fan_edge 0, fan_edge 1]
   \<and> collect_edges (create_layer_ids fan) fan_heap (get_ordered_ops fan) = Inr [fan_edge 0, fan_edge 1]
   \<and> sorted (map from_layer [fan_edge 0, fan_edge 1])"
proof -
  have e: "create_edge_mapping example_library (create_layer_ids fan) fan_heap fan
       = Inr [fan_edge 0, fan_edge 1]"
    by (simp add: create_edge_mapping_def collect_edges_fan example_library_def insertion_sort_def
          by_from_layer_def fan_edge_def)
  from create_edge_mapping_sorted [OF example_library_conforms e]
  have "sorted (map from_layer [fan_edge 0, fan_edge 1])" by blast
  with example_library_conforms e collect_edges_fan show ?thesis by simp
qed

lemma gnu_sort_wide:
  "gnu_sort by_from_layer (map fan_edge [0, 1, 2, 3, 4, 5, 6, 7, 8, 9, 10, 11, 12, 13, 14, 15, 16])
     = map fan_edge [8, 16, 15, 14, 13, 12, 11, 10, 9, 0, 7, 6, 5, 4, 3, 2, 1]"
  by code_simp


lemma collect_edges_wide:
  "collect_edges (create_layer_ids wide) wide_heap (get_ordered_ops wide)
     = Inr (map fan_edge [0, 1, 2, 3, 4, 5, 6, 7, 8, 9, 10, 11, 12, 13, 14, 15, 16])"
  by code_simp

lemma create_edge_mapping_wide:
  "create_edge_mapping gnu_library (create_layer_ids wide) wide_heap wide
     = Inr (map fan_edge [8, 16, 15, 14, 13, 12, 11, 10, 9, 0, 7, 6, 5, 4, 3, 2, 1])"
  by (simp add: create_edge_mapping_def collect_edges_wide gnu_library_def example_library_def
        gnu_sort_wide [simplified])

text \<open>
  The claim C8 as stated fails: the seventeen edges of the graph \<open>wide\<close> have the same
  source layer id and are discovered in the order of their destination ports, from 0 to
  16. The sort of the GNU C++ library moves the edge to port 8 to the front, as the pivot
  of its first partition, and exchanges the others around it: the edge to port 0, the
  first to be discovered, is the tenth of the result.
\<close>

theorem create_edge_mapping_not_stable:
  "collect_edges (create_layer_ids wide) wide_heap (get_ordered_ops wide)
     = Inr (map fan_edge [0, 1, 2, 3, 4, 5, 6, 7, 8, 9, 10, 11, 12, 13, 14, 15, 16])
   \<and> create_edge_mapping gnu_library (create_layer_ids wide) wide_heap wide
     = Inr (map fan_edge [8, 16, 15, 14, 13, 12, 11, 10, 9, 0, 7, 6, 5, 4, 3, 2, 1])
   \<and> from_layer (fan_edge 0) = from_layer (fan_edge 8)
   \<and> map fan_edge [8, 16, 15, 14, 13, 12, 11, 10, 9, 0, 7, 6, 5, 4, 3, 2, 1] ! 0 = fan_edge 8
   \<and> map fan_edge [8, 16, 15, 14, 13, 12, 11, 10, 9, 0, 7, 6, 5, 4, 3, 2, 1] ! 9 = fan_edge 0
   \<and> fan_edge 0 \<noteq> fan_edge 8"
  using collect_edges_wide create_edge_mapping_wide
  by (simp add: fan_edge_def)

section \<open>Layers\<close>

lemma write_layer_Inr:
  assumes "write_layer lib exec_graph ids custom_opsets h node S bin = Inr (layer, S', bin')"
  shows "\<exists>layer_id name data tn children.
           ids node = Some layer_id
           \<and> get_node_unique_name S (h node) = (name, S')
           \<and> layer_data lib exec_graph (h node) bin = Inr (data, tn, bin')
           \<and> layer = Element ''layer''
                ([(''id'', XInt layer_id), (''name'', XString name),
                  (''type'', XString (translate_type_name tn))]
                 @ (if \<not> exec_graph
                    then [(''version'', XString (get_opset_name lib (h node) custom_opsets))]
                    else []))
                ((if data = [] then [] else [Element ''data'' data []]) @ children)
           \<and> (\<forall>c \<in> set children. xml_name c = ''input'' \<or> xml_name c = ''output'')"
proof -
  from assms obtain layer_id where id: "ids node = Some layer_id"
    by (auto simp: write_layer_def split: option.splits)
  obtain name S1 where nm: "get_node_unique_name S (h node) = (name, S1)"
    by (cases "get_node_unique_name S (h node)")
  from assms id nm obtain data tn bin1 where
    ld: "layer_data lib exec_graph (h node) bin = Inr (data, tn, bin1)"
    by (auto simp: write_layer_def Let_def split: sum.splits)
  let ?inp = "(if get_input_size (h node) > 0
                           then (case input_ports h (inputs (h node)) 0 of
                                   Inl err \<Rightarrow> Inl err
                                 | Inr ports \<Rightarrow> Inr [Element ''input'' [] ports])
                           else Inr [])"
  let ?outp = "(if get_output_size (h node) > 0 \<and> \<not> is_output (h node)
                                then (case output_ports (outputs (h node))
                                             (int (get_input_size (h node))) of
                                        Inl err \<Rightarrow> Inl err
                                      | Inr ports \<Rightarrow> Inr [Element ''output'' [] ports])
                                else Inr [])"
  from assms id nm ld obtain ins where inp: "?inp = Inr ins"
    by (cases ?inp) (simp_all add: write_layer_def Let_def)
  from assms id nm ld inp obtain outs where outp: "?outp = Inr outs"
    by (cases ?outp) (simp_all add: write_layer_def Let_def)
  from inp have i: "\<forall>c \<in> set ins. xml_name c = ''input''"
    by (auto split: if_splits sum.splits)
  from outp have o: "\<forall>c \<in> set outs. xml_name c = ''output''"
    by (auto split: if_splits sum.splits)
  from assms id nm ld inp outp have
    "layer = Element ''layer''
                ([(''id'', XInt layer_id), (''name'', XString name),
                  (''type'', XString (translate_type_name tn))]
                 @ (if \<not> exec_graph
                    then [(''version'', XString (get_opset_name lib (h node) custom_opsets))]
                    else []))
                ((if data = [] then [] else [Element ''data'' data []]) @ (ins @ outs))"
    and "S' = S1" and "bin' = bin1"
    by (simp_all add: write_layer_def Let_def)
  with id nm ld i o show ?thesis
    by (intro exI [of _ layer_id] exI [of _ name] exI [of _ data] exI [of _ tn]
          exI [of _ "ins @ outs"]) auto
qed

lemma write_layers_Inr:
  "write_layers lib exec_graph ids custom_opsets h nodes S bin = Inr (layers, S', bin')
     \<Longrightarrow> length layers = length nodes"
proof (induction nodes arbitrary: S bin layers)
  case Nil
  then show ?case by simp
next
  case (Cons node nodes)
  then show ?case by (auto split: sum.splits prod.splits)
qed

lemma write_layers_nth:
  "write_layers lib exec_graph ids custom_opsets h nodes S bin = Inr (layers, S', bin')
     \<Longrightarrow> i < length nodes
     \<Longrightarrow> \<exists>Si bi Si' bi'. write_layer lib exec_graph ids custom_opsets h (nodes ! i) Si bi
            = Inr (layers ! i, Si', bi')"
proof (induction nodes arbitrary: S bin layers i)
  case Nil
  then show ?case by simp
next
  case (Cons node nodes)
  from Cons.prems(1) obtain layer S1 bin1 rest where
    l: "write_layer lib exec_graph ids custom_opsets h node S bin = Inr (layer, S1, bin1)"
    and r: "write_layers lib exec_graph ids custom_opsets h nodes S1 bin1 = Inr (rest, S', bin')"
    and ls: "layers = layer # rest"
    by (auto split: sum.splits prod.splits)
  show ?case
  proof (cases i)
    case 0
    with l ls show ?thesis by auto
  next
    case (Suc k)
    with Cons.prems(2) have "k < length nodes" by simp
    from Cons.IH [OF r this] Suc ls show ?thesis by simp
  qed
qed

section \<open>Layer ids and edges of a topological ordering\<close>

lemma input_ports_of_mem:
  "(node, k) \<in> set (input_ports_of h ops)
     \<longleftrightarrow> node \<in> set ops \<and> \<not> is_parameter (h node) \<and> k < get_input_size (h node)"
  by (auto simp: input_ports_of_def)

lemma collect_edges_forward:
  assumes d: "distinct (get_ordered_ops f)" and t: "topological h (get_ordered_ops f)"
    and c: "collect_edges (create_layer_ids f) h (get_ordered_ops f) = Inr edges"
    and e: "e \<in> set edges"
  shows "forward_edge h (get_ordered_ops f) e"
proof -
  let ?ops = "get_ordered_ops f" and ?ids = "create_layer_ids f"
  note la = collect_edges_ports [OF c]
  from e obtain m where m: "m < length edges" "edges ! m = e"
    by (auto simp: in_set_conv_nth)
  define p where "p = input_ports_of h ?ops ! m"
  from la m have "m < length (input_ports_of h ?ops)"
    by (simp add: list_all2_lengthD)
  then have p: "p \<in> set (input_ports_of h ?ops)"
    unfolding p_def by (rule nth_mem)
  from la m have ep: "edge_of_port ?ids h e p"
    unfolding p_def by (auto dest: list_all2_nthD)
  obtain node k where pk: "p = (node, k)" by (cases p)
  obtain s x where sx: "inputs (h node) ! k = (s, x)" by (cases "inputs (h node) ! k")
  from p pk have node: "node \<in> set ?ops" and k: "k < length (inputs (h node))"
    by (simp_all add: input_ports_of_mem get_input_size_def)
  from node obtain j where j: "j < length ?ops" "?ops ! j = node"
    by (auto simp: in_set_conv_nth)
  from k sx have mem: "(s, x) \<in> set (inputs (h node))"
    by (metis nth_mem)
  with t j have "s \<in> set (take j ?ops)"
    by (auto simp: topological_def)
  then obtain i where i: "i < j" "?ops ! i = s"
    using j(1) by (auto simp: in_set_conv_nth)
  from ep pk sx have fl: "?ids s = Some (from_layer e)" and tl: "?ids node = Some (to_layer e)"
    by (simp_all add: edge_of_port_def)
  from i j have "i < length ?ops" by simp
  from create_layer_ids_nth [OF d this] i fl have "from_layer e = int i" by simp
  moreover from create_layer_ids_nth [OF d j(1)] j tl have "to_layer e = int j" by simp
  moreover from mem i j have "?ops ! i \<in> fst ` set (inputs (h (?ops ! j)))" by force
  ultimately show ?thesis using i j by (auto simp: forward_edge_def)
qed

lemma collect_edges_topological:
  assumes t: "topological h (get_ordered_ops f)"
  shows "\<exists>edges. collect_edges (create_layer_ids f) h (get_ordered_ops f) = Inr edges"
proof -
  let ?ops = "get_ordered_ops f" and ?ids = "create_layer_ids f"
  have known: "?ids n \<noteq> None" if "n \<in> set ?ops" for n
    using that dom_create_layer_ids [of f] by auto
  have src: "s \<in> set ?ops" if "node \<in> set ?ops" "(s, x) \<in> set (inputs (h node))" for node s x
  proof -
    from that(1) obtain j where j: "j < length ?ops" "?ops ! j = node"
      by (auto simp: in_set_conv_nth)
    with t that(2) have "s \<in> set (take j ?ops)"
      by (auto simp: topological_def)
    then show ?thesis by (rule in_set_takeD)
  qed
  have "\<forall>node \<in> set ?ops. ?ids node \<noteq> None \<and> (\<forall>(s, x) \<in> set (inputs (h node)). ?ids s \<noteq> None)"
  proof (intro ballI conjI)
    fix node assume "node \<in> set ?ops"
    then show "?ids node \<noteq> None" by (rule known)
  next
    fix node p assume n: "node \<in> set ?ops" and p: "p \<in> set (inputs (h node))"
    obtain s x where sx: "p = (s, x)" by (cases p)
    from src [OF n] p sx have "s \<in> set ?ops" by simp
    then have "?ids s \<noteq> None" by (rule known)
    with sx show "case p of (s, x) \<Rightarrow> ?ids s \<noteq> None" by simp
  qed
  then show ?thesis by (rule collect_edges_succeeds)
qed

text \<open>
  Claim C2. For a graph whose ordering \<open>get_ordered_ops\<close> is topological (no node
  twice, sources before their consumers), with \<open>N\<close> nodes: the layer ids are defined on
  exactly the nodes; the node at position \<open>i\<close> has the id \<open>i\<close>, so the ids are the
  integers \<open>0..N-1\<close>, each once; and the edges are computed without failure, each of them
  from the layer of a node that stands before the node of its destination layer. With a
  sort that keeps its contract, the same holds of the sorted edges.
\<close>

theorem layer_ids_topological:
  assumes "distinct (get_ordered_ops f)" and "topological h (get_ordered_ops f)"
  shows "dom (create_layer_ids f) = set (get_ordered_ops f)
    \<and> (\<forall>i<length (get_ordered_ops f). create_layer_ids f (get_ordered_ops f ! i) = Some (int i))
    \<and> ran (create_layer_ids f) = int ` {0..<length (get_ordered_ops f)}
    \<and> inj_on (create_layer_ids f) (set (get_ordered_ops f))
    \<and> (\<exists>edges. collect_edges (create_layer_ids f) h (get_ordered_ops f) = Inr edges
          \<and> (\<forall>e \<in> set edges. forward_edge h (get_ordered_ops f) e))
    \<and> (std_sort_conforms lib \<longrightarrow>
         (\<exists>edge_mapping. create_edge_mapping lib (create_layer_ids f) h f = Inr edge_mapping
            \<and> (\<forall>e \<in> set edge_mapping. forward_edge h (get_ordered_ops f) e)))"
proof -
  from collect_edges_topological [OF assms(2)] obtain edges where
    c: "collect_edges (create_layer_ids f) h (get_ordered_ops f) = Inr edges" by auto
  have fw: "\<forall>e \<in> set edges. forward_edge h (get_ordered_ops f) e"
    using collect_edges_forward [OF assms c] by blast
  have "\<exists>edge_mapping. create_edge_mapping lib (create_layer_ids f) h f = Inr edge_mapping
            \<and> (\<forall>e \<in> set edge_mapping. forward_edge h (get_ordered_ops f) e)"
    if "std_sort_conforms lib"
  proof -
    let ?em = "std_sort lib by_from_layer edges"
    have em: "create_edge_mapping lib (create_layer_ids f) h f = Inr ?em"
      using c by (simp add: create_edge_mapping_def)
    from that have "mset ?em = mset edges"
      by (simp add: std_sort_conforms_def std_sort_post_def)
    then have "set ?em = set edges" by (rule mset_eq_setD)
    with em fw show ?thesis by simp
  qed
  with c fw assms(1) show ?thesis
    by (simp add: dom_create_layer_ids create_layer_ids_nth ran_create_layer_ids
          inj_on_create_layer_ids)
qed

section \<open>An example graph\<close>

lemma get_ordered_ops_example: "get_ordered_ops example_function = [0, 1, 2, 3]"
  by (simp add: example_function_def)

lemma create_layer_ids_example:
  "create_layer_ids example_function = [0 \<mapsto> 0, 1 \<mapsto> 1, 2 \<mapsto> 2, 3 \<mapsto> 3]"
  by (simp add: create_layer_ids_def example_function_def)

lemma example_heap_simps:
  "example_heap 0 = (typed_node ''Parameter'' 0)
               \<lparr>friendly_name := ''input'', node_class := ParameterOp,
                outputs := [static_f32 [1, 2]],
                attributes := [(''element_type'', AString ''f32''), (''shape'', AInt64Vector [1, 2])]\<rparr>"
  "example_heap (Suc 0) = (typed_node ''Constant'' 0)
               \<lparr>friendly_name := ''input'',
                outputs := [static_f32 [1]],
                attributes := [(''element_type'', AString ''f32''), (''shape'', AInt64Vector [1]),
                               (''value'', AVoidPtr (AlignedBufferAdapter [0, 0, 128, 63]))]\<rparr>"
  "example_heap 2 = (typed_node ''Add'' 1)
               \<lparr>friendly_name := ''add'', inputs := [(0, 0), (1, 0)],
                outputs := [static_f32 [1, 2]]\<rparr>"
  "example_heap 3 = (typed_node ''Result'' 0)
               \<lparr>friendly_name := ''output'', node_class := ResultOp, inputs := [(2, 0)],
                outputs := [static_f32 [1, 2]]\<rparr>"
  by (simp_all add: example_heap_def)

lemma collect_edges_example:
  "collect_edges (create_layer_ids example_function) example_heap (get_ordered_ops example_function)
     = Inr example_edges"
  by (simp add: create_layer_ids_example get_ordered_ops_example example_heap_simps typed_node_def
        is_parameter_def get_input_size_def example_edges_def)

lemma topological_example: "topological example_heap (get_ordered_ops example_function)"
  by (simp add: topological_def get_ordered_ops_example All_less_Suc2 example_heap_simps
        typed_node_def)

lemmas example_eval =
  write_layer_def layer_data_def visit_attributes_def on_adapter_void_def on_adapter_void_ptr_def
  on_adapter_bool_def on_adapter_string_def on_adapter_int64_def on_adapter_double_def
  on_adapter_vector_def append_attribute_def join_def to_string_int_def to_string.simps
  digit_char_def translate_type_name_def translate_type_name_translator_def
  get_node_unique_name_def generate_unique_name.simps get_opset_name_def opsets_def
  contains_op_type_def get_tensor_def PartialShape_is_static_def Dimension_is_static_def
  dims_xml_def get_shape_def get_type_name_def get_input_size_def get_output_size_def
  is_output_def is_parameter_def typed_node_def static_f32_def Let_def

lemma write_layers_example:
  "write_layers example_library False (create_layer_ids example_function) []
         example_heap (get_ordered_ops example_function) {||} []
   = Inr (example_layers, {|''output'', ''add'', ''input0'', ''input''|}, [0, 0, 128, 63])"
  by (simp add: create_layer_ids_example get_ordered_ops_example example_heap_simps example_eval
        example_library_def example_layers_def)

lemma create_edge_mapping_example:
  "create_edge_mapping example_library (create_layer_ids example_function) example_heap
     example_function = Inr example_edges"
  by (simp add: create_edge_mapping_def collect_edges_example)
     (simp add: example_library_def insertion_sort_def by_from_layer_def example_edges_def)

theorem layer_ids_topological_witness:
  "distinct (get_ordered_ops example_function)
   \<and> topological example_heap (get_ordered_ops example_function)
   \<and> std_sort_conforms example_library
   \<and> create_layer_ids example_function = [0 \<mapsto> 0, 1 \<mapsto> 1, 2 \<mapsto> 2, 3 \<mapsto> 3]
   \<and> ran (create_layer_ids example_function)
       = int ` {0..<length (get_ordered_ops example_function)}
   \<and> create_edge_mapping example_library (create_layer_ids example_function) example_heap
        example_function = Inr example_edges
   \<and> list_all (forward_edge example_heap (get_ordered_ops example_function)) example_edges"
proof -
  have d: "distinct (get_ordered_ops example_function)"
    by (simp add: get_ordered_ops_example)
  note t = layer_ids_topological [OF d topological_example, of example_library]
  from t have r: "ran (create_layer_ids example_function)
       = int ` {0..<length (get_ordered_ops example_function)}"
    by blast
  from t example_library_conforms obtain edge_mapping where
    "create_edge_mapping example_library (create_layer_ids example_function) example_heap
       example_function = Inr edge_mapping"
    "\<forall>e \<in> set edge_mapping. forward_edge example_heap (get_ordered_ops example_function) e"
    by blast
  with create_edge_mapping_example
  have "list_all (forward_edge example_heap (get_ordered_ops example_function)) example_edges"
    by (simp add: list_all_iff)
  with d topological_example example_library_conforms create_layer_ids_example r
    create_edge_mapping_example
  show ?thesis by simp
qed

section \<open>One edge for each input port, one layer for each node\<close>

lemma write_layers_ids:
  assumes "write_layers lib exec_graph ids custom_opsets h nodes S bin = Inr (layers, S', bin')"
    and "i < length nodes"
  shows "\<exists>layer_id. ids (nodes ! i) = Some layer_id \<and> xml_name (layers ! i) = ''layer''
           \<and> map_of (xml_attributes (layers ! i)) ''id'' = Some (XInt layer_id)"
proof -
  from write_layers_nth [OF assms] obtain Si bi Si' bi' where
    "write_layer lib exec_graph ids custom_opsets h (nodes ! i) Si bi = Inr (layers ! i, Si', bi')"
    by blast
  from write_layer_Inr [OF this] show ?thesis by auto
qed

text \<open>
  Claim C4. The edges that the loops of \<open>create_edge_mapping\<close> record correspond, one to
  one and in order, to the input ports of the nodes that are not parameters: the edge
  of input port \<open>k\<close> of a node has the source port number "input count of the source
  node plus index of the source output" and the destination port number \<open>k\<close>
  (\<open>edge_of_port\<close>). No edge is dropped as a duplicate: the sorted list holds each of
  them, as often as it was recorded. And every node of the ordering, a parameter or not,
  gets its \<open>layer\<close> element with its layer id.
\<close>

theorem edges_one_per_input_port:
  "(\<forall>edges. collect_edges layer_ids h (get_ordered_ops f) = Inr edges \<longrightarrow>
      list_all2 (edge_of_port layer_ids h) edges (input_ports_of h (get_ordered_ops f)))
   \<and> (\<forall>edge_mapping.
        std_sort_conforms lib \<and> create_edge_mapping lib layer_ids h f = Inr edge_mapping \<longrightarrow>
        (\<exists>edges. list_all2 (edge_of_port layer_ids h) edges (input_ports_of h (get_ordered_ops f))
           \<and> mset edge_mapping = mset edges))
   \<and> (\<forall>layers unique_names' bin_file'.
        write_layers lib exec_graph layer_ids custom_opsets h (get_ordered_ops f) unique_names bin_file
          = Inr (layers, unique_names', bin_file') \<longrightarrow>
        length layers = length (get_ordered_ops f)
        \<and> (\<forall>i<length (get_ordered_ops f).
             \<exists>layer_id. layer_ids (get_ordered_ops f ! i) = Some layer_id
                \<and> xml_name (layers ! i) = ''layer''
                \<and> map_of (xml_attributes (layers ! i)) ''id'' = Some (XInt layer_id)))"
proof (intro conjI allI impI)
  fix edges
  assume "collect_edges layer_ids h (get_ordered_ops f) = Inr edges"
  then show "list_all2 (edge_of_port layer_ids h) edges (input_ports_of h (get_ordered_ops f))"
    by (rule collect_edges_ports)
next
  fix edge_mapping
  assume a: "std_sort_conforms lib \<and> create_edge_mapping lib layer_ids h f = Inr edge_mapping"
  then obtain edges where "collect_edges layer_ids h (get_ordered_ops f) = Inr edges"
    "mset edge_mapping = mset edges"
    using create_edge_mapping_perm [of lib layer_ids h f edge_mapping] by blast
  with collect_edges_ports [of layer_ids h "get_ordered_ops f" edges]
  show "\<exists>edges. list_all2 (edge_of_port layer_ids h) edges (input_ports_of h (get_ordered_ops f))
           \<and> mset edge_mapping = mset edges"
    by blast
next
  fix layers unique_names' bin_file'
  assume "write_layers lib exec_graph layer_ids custom_opsets h (get_ordered_ops f) unique_names bin_file
          = Inr (layers, unique_names', bin_file')"
  then show "length layers = length (get_ordered_ops f)"
    by (rule write_layers_Inr)
next
  fix layers unique_names' bin_file' i
  assume "write_layers lib exec_graph layer_ids custom_opsets h (get_ordered_ops f) unique_names bin_file
          = Inr (layers, unique_names', bin_file')"
    and "i < length (get_ordered_ops f)"
  then show "\<exists>layer_id. layer_ids (get_ordered_ops f ! i) = Some layer_id
                \<and> xml_name (layers ! i) = ''layer''
                \<and> map_of (xml_attributes (layers ! i)) ''id'' = Some (XInt layer_id)"
    by (rule write_layers_ids)
qed

theorem edges_one_per_input_port_witness:
  "collect_edges (create_layer_ids example_function) example_heap (get_ordered_ops example_function)
     = Inr example_edges
   \<and> input_ports_of example_heap (get_ordered_ops example_function) = [(2, 0), (2, 1), (3, 0)]
   \<and> list_all2 (edge_of_port (create_layer_ids example_function) example_heap) example_edges
        [(2, 0), (2, 1), (3, 0)]
   \<and> std_sort_conforms example_library
   \<and> create_edge_mapping example_library (create_layer_ids example_function) example_heap
        example_function = Inr example_edges
   \<and> write_layers example_library False (create_layer_ids example_function) []
         example_heap (get_ordered_ops example_function) {||} []
       = Inr (example_layers, {|''output'', ''add'', ''input0'', ''input''|}, [0, 0, 128, 63])
   \<and> is_parameter (example_heap 0)
   \<and> map_of (xml_attributes (example_layers ! 0)) ''id'' = Some (XInt 0)"
proof -
  note t = edges_one_per_input_port [of "create_layer_ids example_function" example_heap
      example_function example_library False "[]" "{||}" "[]"]
  have p: "input_ports_of example_heap (get_ordered_ops example_function) = [(2, 0), (2, 1), (3, 0)]"
    by (simp add: input_ports_of_def get_ordered_ops_example example_heap_simps is_parameter_def
          get_input_size_def typed_node_def)
  from t collect_edges_example
  have "list_all2 (edge_of_port (create_layer_ids example_function) example_heap) example_edges
        (input_ports_of example_heap (get_ordered_ops example_function))"
    by blast
  then have l: "list_all2 (edge_of_port (create_layer_ids example_function) example_heap)
      example_edges [(2, 0), (2, 1), (3, 0)]"
    by (simp only: p)
  from t write_layers_example have
    "\<forall>i<length (get_ordered_ops example_function).
             \<exists>layer_id. create_layer_ids example_function (get_ordered_ops example_function ! i)
                  = Some layer_id
                \<and> xml_name (example_layers ! i) = ''layer''
                \<and> map_of (xml_attributes (example_layers ! i)) ''id'' = Some (XInt layer_id)"
    by blast
  then have "0 < length (get_ordered_ops example_function) \<longrightarrow>
      (\<exists>layer_id. create_layer_ids example_function (get_ordered_ops example_function ! 0)
                  = Some layer_id
                \<and> xml_name (example_layers ! 0) = ''layer''
                \<and> map_of (xml_attributes (example_layers ! 0)) ''id'' = Some (XInt layer_id))"
    by (rule spec)
  then have "\<exists>layer_id. create_layer_ids example_function (get_ordered_ops example_function ! 0)
                  = Some layer_id
                \<and> map_of (xml_attributes (example_layers ! 0)) ''id'' = Some (XInt layer_id)"
    by (auto simp: get_ordered_ops_example)
  then have i: "map_of (xml_attributes (example_layers ! 0)) ''id'' = Some (XInt 0)"
    by (simp add: get_ordered_ops_example create_layer_ids_example)
  have "is_parameter (example_heap 0)"
    by (simp add: example_heap_simps is_parameter_def)
  with collect_edges_example p l example_library_conforms create_edge_mapping_example
    write_layers_example i
  show ?thesis by simp
qed

section \<open>The parts of a successful call\<close>

lemma ngfunction_2_irv10_Inr:
  assumes "ngfunction_2_irv10 lib depth bin h f custom_opsets = Some (Inr (net, bin', h'))"
  shows "\<exists>was_dynamic h1 layers S edge_mapping.
           resolve_dynamic_shapes lib depth h f = Some (Inr (was_dynamic, h1))
           \<and> write_layers lib (is_exec_graph h f) (create_layer_ids f) custom_opsets h1
                (get_ordered_ops f) {||} bin = Inr (layers, S, bin')
           \<and> create_edge_mapping lib (create_layer_ids f) h1 f = Inr edge_mapping
           \<and> net = Element ''net''
                     [(''name'', XString (get_friendly_name f)), (''version'', XString ''10'')]
                     [Element ''layers'' [] layers, Element ''edges'' [] (map edge_xml edge_mapping)]
           \<and> (if was_dynamic then validate_nodes_and_infer_types lib h1 f = Inr h' else h' = h1)"
proof -
  from assms obtain was_dynamic h1 where
    r: "resolve_dynamic_shapes lib depth h f = Some (Inr (was_dynamic, h1))"
    by (auto simp: ngfunction_2_irv10_def Let_def split: option.splits sum.splits)
  from assms r obtain layers S bin1 where
    w: "write_layers lib (is_exec_graph h f) (create_layer_ids f) custom_opsets h1
                (get_ordered_ops f) {||} bin = Inr (layers, S, bin1)"
    by (auto simp: ngfunction_2_irv10_def Let_def split: sum.splits)
  from assms r w obtain edge_mapping where
    e: "create_edge_mapping lib (create_layer_ids f) h1 f = Inr edge_mapping"
    by (auto simp: ngfunction_2_irv10_def Let_def split: sum.splits)
  from assms r w e have
    "net = Element ''net''
                     [(''name'', XString (get_friendly_name f)), (''version'', XString ''10'')]
                     [Element ''layers'' [] layers, Element ''edges'' [] (map edge_xml edge_mapping)]
     \<and> bin' = bin1
     \<and> (if was_dynamic then validate_nodes_and_infer_types lib h1 f = Inr h' else h' = h1)"
    by (auto simp: ngfunction_2_irv10_def Let_def split: sum.splits if_splits)
  with r w e show ?thesis by blast
qed

section \<open>Graphs without dynamic shapes\<close>

lemma resolve_dynamic_shapes_unfold:
  "\<exists>resolve. resolve_dynamic_shapes lib depth = resolve_body lib resolve"
  by (cases depth) auto

lemma is_dynamic_iff:
  "is_dynamic n \<longleftrightarrow> (\<exists>t \<in> set (outputs n). \<not> PartialShape_is_static (partial_shape t))"
  by (simp add: is_dynamic_def list_ex_iff PartialShape_is_dynamic_def)

lemma resolve_dynamic_shapes_all_static:
  assumes "\<forall>n \<in> set (get_ordered_ops f). \<not> is_dynamic (h n)"
  shows "resolve_dynamic_shapes lib depth h f = Some (Inr (False, h))"
proof -
  obtain resolve where "resolve_dynamic_shapes lib depth = resolve_body lib resolve"
    using resolve_dynamic_shapes_unfold by blast
  with assms show ?thesis
    by (simp add: resolve_body_def Let_def list_all_iff)
qed

text \<open>
  Claim C6. If no node of the graph, the nodes of nested sub-graphs included, has an
  output whose shape is dynamic, the shape resolver returns \<open>false\<close> and the heap it
  leaves is the heap it was given: every output shape of every node is what it was.
  The same holds of the heap after a whole call of \<open>ngfunction_2_irv10\<close> that returns.
\<close>

theorem resolve_dynamic_shapes_static:
  assumes "\<forall>n \<in> nested_nodes h f. \<forall>t \<in> set (outputs (h n)). PartialShape_is_static (partial_shape t)"
  shows "resolve_dynamic_shapes lib depth h f = Some (Inr (False, h))
    \<and> (\<forall>net bin' h'.
          ngfunction_2_irv10 lib depth bin h f custom_opsets = Some (Inr (net, bin', h'))
          \<longrightarrow> h' = h)"
proof -
  have "\<forall>n \<in> set (get_ordered_ops f). \<not> is_dynamic (h n)"
    using assms by (auto simp: is_dynamic_iff intro: nested_nodes.top)
  then have r: "resolve_dynamic_shapes lib depth h f = Some (Inr (False, h))"
    by (rule resolve_dynamic_shapes_all_static)
  have "h' = h"
    if "ngfunction_2_irv10 lib depth bin h f custom_opsets = Some (Inr (net, bin', h'))"
    for net bin' h'
    using ngfunction_2_irv10_Inr [OF that] r by auto
  with r show ?thesis by blast
qed

lemma nested_nodes_example:
  "n \<in> nested_nodes nested_heap nested_function \<Longrightarrow> n \<in> {0, 1, 2, 3, 4, 10, 11}"
proof (induction rule: nested_nodes.induct)
  case (top n)
  then show ?case by (auto simp: nested_function_def)
next
  case (nested m g n)
  then show ?case
    by (auto simp: nested_heap_def example_heap_def typed_node_def)
qed

lemma nested_heap_static:
  "n \<in> {0, 1, 2, 3, 4, 10, 11} \<Longrightarrow>
     \<forall>t \<in> set (outputs (nested_heap n)). PartialShape_is_static (partial_shape t)"
  by (auto simp: nested_heap_def example_heap_def typed_node_def static_f32_def
        PartialShape_is_static_def Dimension_is_static_def)

theorem resolve_dynamic_shapes_static_witness:
  "node_class (nested_heap 4)
     = SubGraphOp \<lparr>get_ordered_ops = [10, 11], get_ops = [10, 11], get_friendly_name = ''body''\<rparr>
   \<and> 10 \<in> nested_nodes nested_heap nested_function
   \<and> resolve_dynamic_shapes example_library 0 nested_heap nested_function
       = Some (Inr (False, nested_heap))
   \<and> (\<exists>net bin'. ngfunction_2_irv10 example_library 0 [] nested_heap nested_function []
          = Some (Inr (net, bin', nested_heap)))"
proof -
  have s: "\<forall>n \<in> nested_nodes nested_heap nested_function.
      \<forall>t \<in> set (outputs (nested_heap n)). PartialShape_is_static (partial_shape t)"
    using nested_nodes_example nested_heap_static by blast
  note t = resolve_dynamic_shapes_static [OF s, of example_library 0 "[]" "[]"]
  have c: "node_class (nested_heap 4)
     = SubGraphOp \<lparr>get_ordered_ops = [10, 11], get_ops = [10, 11], get_friendly_name = ''body''\<rparr>"
    by (simp add: nested_heap_def)
  have "4 \<in> nested_nodes nested_heap nested_function"
    by (rule nested_nodes.top) (simp add: nested_function_def)
  from nested_nodes.nested [OF this c, of 10]
  have m: "10 \<in> nested_nodes nested_heap nested_function" by simp
  from t have r: "resolve_dynamic_shapes example_library 0 nested_heap nested_function
       = Some (Inr (False, nested_heap))" by blast
  have "\<exists>net bin' h'. ngfunction_2_irv10 example_library 0 [] nested_heap nested_function []
          = Some (Inr (net, bin', h'))"
    unfolding ngfunction_2_irv10_def r
    by (simp add: create_layer_ids_def nested_function_def nested_heap_def example_heap_def
          example_eval example_library_def create_edge_mapping_def is_exec_graph_def)
  with t have "\<exists>net bin'. ngfunction_2_irv10 example_library 0 [] nested_heap nested_function []
          = Some (Inr (net, bin', nested_heap))"
    by blast
  with c m r show ?thesis by blast
qed

section \<open>Execution graphs\<close>

















section \<open>Upper bounds for dynamic dimensions\<close>

lemma length_set_tensor: "length (set_tensor ts i t) = max (length ts) (Suc i)"
  by (auto simp: set_tensor_def)

lemma nth_set_tensor_same: "set_tensor ts i t ! i = t"
  by (auto simp: set_tensor_def nth_append)

lemma nth_set_tensor_other: "j < length ts \<Longrightarrow> j \<noteq> i \<Longrightarrow> set_tensor ts i t ! j = ts ! j"
  by (auto simp: set_tensor_def nth_append)

lemma outputs_set_output_type:
  "outputs (set_output_type h n i et shape m) =
     (if m = n then set_tensor (outputs (h n)) i \<lparr>element_type = et, partial_shape = shape\<rparr>
      else outputs (h m))"
  by (simp add: set_output_type_def)

lemma fold_failed_output_outputs:
  assumes k: "k < length (outputs (h clone_op))"
  shows "outputs (fold_failed_output lib op clone_op k h clone_op)
           = (outputs (h clone_op))[k := to_static lib (outputs (h clone_op) ! k)]"
    and "op \<noteq> clone_op \<Longrightarrow> outputs (fold_failed_output lib op clone_op k h op)
           = set_tensor (outputs (h op)) k (to_static lib (outputs (h clone_op) ! k))"
proof -
  define t where "t = outputs (h clone_op) ! k"
  define h1 where
    "h1 = set_output_type h clone_op k (element_type t) (dynamic_to_static lib (partial_shape t))"
  have o1: "outputs (h1 clone_op) = (outputs (h clone_op))[k := to_static lib t]"
    using k by (simp add: h1_def outputs_set_output_type set_tensor_def to_static_def)
  then have t1: "outputs (h1 clone_op) ! k = to_static lib t"
    using k by simp
  have e: "fold_failed_output lib op clone_op k h
      = set_output_type h1 op k (element_type (to_static lib t)) (partial_shape (to_static lib t))"
    unfolding fold_failed_output_def Let_def t_def [symmetric] h1_def [symmetric] t1 ..
  have r: "\<lparr>element_type = element_type (to_static lib t),
            partial_shape = partial_shape (to_static lib t)\<rparr> = to_static lib t"
    by simp
  have o2: "outputs (fold_failed_output lib op clone_op k h m)
      = (if m = op then set_tensor (outputs (h1 op)) k (to_static lib t) else outputs (h1 m))" for m
    unfolding e outputs_set_output_type r ..
  show "outputs (fold_failed_output lib op clone_op k h clone_op)
           = (outputs (h clone_op))[k := to_static lib (outputs (h clone_op) ! k)]"
  proof (cases "op = clone_op")
    case True
    with o2 [of clone_op] o1 k show ?thesis
      by (simp add: set_tensor_def t_def)
  next
    case False
    then have "clone_op \<noteq> op" by simp
    then show ?thesis
      by (simp add: o2 o1 t_def)
  qed
  show "outputs (fold_failed_output lib op clone_op k h op)
           = set_tensor (outputs (h op)) k (to_static lib (outputs (h clone_op) ! k))"
    if "op \<noteq> clone_op"
    using that by (simp add: o2 h1_def outputs_set_output_type t_def)
qed

lemma fold_failed_invariant:
  fixes lib :: library and op clone_op :: node_ptr and h :: heap and k :: nat
  assumes "k \<le> length (outputs (h clone_op))"
  defines "hk \<equiv> fold (fold_failed_output lib op clone_op) [0..<k] h"
  shows "length (outputs (hk clone_op)) = length (outputs (h clone_op))
    \<and> (\<forall>i<length (outputs (h clone_op)).
          outputs (hk clone_op) ! i
            = (if i < k then to_static lib (outputs (h clone_op) ! i) else outputs (h clone_op) ! i))
    \<and> (\<forall>i<k. i < length (outputs (hk op))
          \<and> outputs (hk op) ! i = to_static lib (outputs (h clone_op) ! i))"
  using assms(1) unfolding hk_def
proof (induction k)
  case 0
  then show ?case by simp
next
  case (Suc k)
  define hk where "hk = fold (fold_failed_output lib op clone_op) [0..<k] h"
  define outs where "outs = outputs (h clone_op)"
  from Suc.prems have k: "k < length outs" by (simp add: outs_def)
  from Suc.IH Suc.prems have
    len: "length (outputs (hk clone_op)) = length outs"
    and cl: "\<forall>i<length outs. outputs (hk clone_op) ! i
               = (if i < k then to_static lib (outs ! i) else outs ! i)"
    and ops: "\<forall>i<k. i < length (outputs (hk op)) \<and> outputs (hk op) ! i = to_static lib (outs ! i)"
    by (simp_all add: hk_def outs_def)
  have step: "fold (fold_failed_output lib op clone_op) [0..<Suc k] h
      = fold_failed_output lib op clone_op k hk"
    by (simp add: hk_def)
  from k len have k': "k < length (outputs (hk clone_op))" by simp
  from cl k have atk: "outputs (hk clone_op) ! k = outs ! k" by simp
  note st = fold_failed_output_outputs
    [where k = k and h = hk and clone_op = clone_op and lib = lib and op = op, OF k', unfolded atk]
  have c1: "length (outputs (fold_failed_output lib op clone_op k hk clone_op)) = length outs"
    using st(1) len by simp
  have c2: "outputs (fold_failed_output lib op clone_op k hk clone_op) ! i
      = (if i < Suc k then to_static lib (outs ! i) else outs ! i)" if "i < length outs" for i
    using st(1) len cl that by (auto simp: nth_list_update less_Suc_eq)
  have c3: "i < length (outputs (fold_failed_output lib op clone_op k hk op))
      \<and> outputs (fold_failed_output lib op clone_op k hk op) ! i = to_static lib (outs ! i)"
    if "i < Suc k" for i
  proof (cases "op = clone_op")
    case True
    from that k have "i < length outs" by simp
    with c1 c2 [OF this] that True show ?thesis by simp
  next
    case False
    note o = st(2) [OF False]
    show ?thesis
    proof (cases "i = k")
      case True
      then show ?thesis
        unfolding o by (simp add: length_set_tensor nth_set_tensor_same)
    next
      case False
      with that have "i < k" by simp
      with ops have "i < length (outputs (hk op))" "outputs (hk op) ! i = to_static lib (outs ! i)"
        by simp_all
      with False show ?thesis
        unfolding o by (simp add: length_set_tensor nth_set_tensor_other)
    qed
  qed
  from c1 c2 c3 show ?case
    unfolding step outs_def by blast
qed

lemma fold_failed_outputs:
  assumes "i < get_output_size (h clone_op)"
  shows "outputs (fold_failed lib op clone_op h clone_op) ! i
           = to_static lib (outputs (h clone_op) ! i)"
    and "outputs (fold_failed lib op clone_op h op) ! i
           = to_static lib (outputs (h clone_op) ! i)"
  using fold_failed_invariant [of "length (outputs (h clone_op))" h clone_op lib op] assms
  by (simp_all add: fold_failed_def get_output_size_def)

lemma dynamic_to_static_dims:
  "dynamic_to_static lib (RankStatic ds) =
     RankStatic (map (\<lambda>d. if Dimension_is_dynamic d then max_length_dimension lib d else d) ds)"
proof (cases "PartialShape_is_static (RankStatic ds)")
  case True
  then have "map (\<lambda>d. if Dimension_is_dynamic d then max_length_dimension lib d else d) ds = ds"
    by (auto simp: PartialShape_is_static_def list_all_iff Dimension_is_dynamic_def
          intro: map_idI)
  with True show ?thesis by (simp add: dynamic_to_static_def)
next
  case False
  then show ?thesis by (simp add: dynamic_to_static_def rank_is_dynamic_def)
qed

lemma dynamic_to_static_substituted:
  "\<exists>ds'. dynamic_to_static lib (RankStatic ds) = RankStatic ds'
     \<and> list_all2 (upper_bound_substituted lib) ds ds'"
  unfolding dynamic_to_static_dims
  by (auto simp: list_all2_conv_all_nth upper_bound_substituted_def Dimension_is_dynamic_def
        max_length_dimension_def split: option.splits)

subsection \<open>Shapes that stay dynamic\<close>

lemma dynamic_to_static_unbounded:
  assumes "Dimension_is_dynamic (unbounded_max_dimension lib)"
    and "d \<in> set ds" and "Dimension_is_dynamic d" and "max_bound d = None"
  shows "\<not> PartialShape_is_static (dynamic_to_static lib (RankStatic ds))"
proof -
  from assms have "unbounded_max_dimension lib
      \<in> set (map (\<lambda>d. if Dimension_is_dynamic d then max_length_dimension lib d else d) ds)"
    by (force simp: max_length_dimension_def)
  with assms(1) show ?thesis
    unfolding dynamic_to_static_dims
    by (auto simp: PartialShape_is_static_def list_all_iff Dimension_is_dynamic_def
          simp del: set_map)
qed

lemma input_ports_dynamic:
  "list_ex (\<lambda>i. case get_tensor h i of
                  Inl err \<Rightarrow> False
                | Inr t \<Rightarrow> \<not> PartialShape_is_static (partial_shape t)) ins
     \<Longrightarrow> \<exists>err. input_ports h ins port_id = Inl err"
proof (induction ins arbitrary: port_id)
  case Nil
  then show ?case by simp
next
  case (Cons i ins)
  let ?P = "\<lambda>i. case get_tensor h i of
                  Inl err \<Rightarrow> False
                | Inr t \<Rightarrow> \<not> PartialShape_is_static (partial_shape t)"
  from Cons.prems have d: "?P i \<or> list_ex ?P ins"
    by (simp only: list_ex_Cons_iff)
  show ?case
  proof (cases "get_tensor h i")
    case (Inl err)
    then show ?thesis by simp
  next
    case (Inr t)
    show ?thesis
    proof (cases "PartialShape_is_static (partial_shape t)")
      case False
      with Inr show ?thesis by simp
    next
      case True
      with Inr d have "list_ex ?P ins" by simp
      from Cons.IH [OF this, of "port_id + 1"] obtain err where
        "input_ports h ins (port_id + 1) = Inl err" ..
      with Inr True show ?thesis by simp
    qed
  qed
qed

lemma output_ports_dynamic:
  "list_ex (\<lambda>t. \<not> PartialShape_is_static (partial_shape t)) outs
     \<Longrightarrow> \<exists>err. output_ports outs port_id = Inl err"
proof (induction outs arbitrary: port_id)
  case Nil
  then show ?case by simp
next
  case (Cons t outs)
  show ?case
  proof (cases "PartialShape_is_static (partial_shape t)")
    case False
    then show ?thesis by simp
  next
    case True
    with Cons.prems have "list_ex (\<lambda>t. \<not> PartialShape_is_static (partial_shape t)) outs"
      by simp
    from Cons.IH [OF this, of "port_id + 1"] obtain err where
      e: "output_ports outs (port_id + 1) = Inl err" ..
    show ?thesis
    proof (cases "get_output_precision_name t")
      case (Inl err')
      with True show ?thesis by simp
    next
      case (Inr precision)
      with True e show ?thesis by simp
    qed
  qed
qed

lemma write_layer_ports:
  assumes "write_layer lib exec_graph ids custom_opsets h node S bin = Inr r"
  shows "(get_input_size (h node) > 0
            \<longrightarrow> (\<exists>ports. input_ports h (inputs (h node)) 0 = Inr ports))
         \<and> (get_output_size (h node) > 0 \<and> \<not> is_output (h node)
              \<longrightarrow> (\<exists>ports. output_ports (outputs (h node)) (int (get_input_size (h node)))
                             = Inr ports))"
proof -
  from assms obtain layer_id where id: "ids node = Some layer_id"
    by (auto simp: write_layer_def split: option.splits)
  obtain name S1 where nm: "get_node_unique_name S (h node) = (name, S1)"
    by (cases "get_node_unique_name S (h node)")
  from assms id nm obtain data tn bin1 where
    ld: "layer_data lib exec_graph (h node) bin = Inr (data, tn, bin1)"
    by (auto simp: write_layer_def Let_def split: sum.splits)
  let ?inp = "(if get_input_size (h node) > 0
                           then (case input_ports h (inputs (h node)) 0 of
                                   Inl err \<Rightarrow> Inl err
                                 | Inr ports \<Rightarrow> Inr [Element ''input'' [] ports])
                           else Inr [])"
  let ?outp = "(if get_output_size (h node) > 0 \<and> \<not> is_output (h node)
                                then (case output_ports (outputs (h node))
                                             (int (get_input_size (h node))) of
                                        Inl err \<Rightarrow> Inl err
                                      | Inr ports \<Rightarrow> Inr [Element ''output'' [] ports])
                                else Inr [])"
  from assms id nm ld obtain ins where inp: "?inp = Inr ins"
    by (cases ?inp) (simp_all add: write_layer_def Let_def)
  from assms id nm ld inp obtain outs where outp: "?outp = Inr outs"
    by (cases ?outp) (simp_all add: write_layer_def Let_def)
  from inp have "get_input_size (h node) > 0
            \<longrightarrow> (\<exists>ports. input_ports h (inputs (h node)) 0 = Inr ports)"
    by (auto split: if_splits sum.splits)
  moreover from outp have "get_output_size (h node) > 0 \<and> \<not> is_output (h node)
              \<longrightarrow> (\<exists>ports. output_ports (outputs (h node)) (int (get_input_size (h node)))
                             = Inr ports)"
    by (auto split: if_splits sum.splits)
  ultimately show ?thesis by blast
qed

lemma write_layer_dynamic:
  assumes "dynamic_port h node"
  shows "\<exists>err. write_layer lib exec_graph ids custom_opsets h node S bin = Inl err"
proof (cases "write_layer lib exec_graph ids custom_opsets h node S bin")
  case (Inl err)
  then show ?thesis by blast
next
  case (Inr r)
  note p = write_layer_ports [OF Inr]
  from assms consider
    (i) "list_ex (\<lambda>i. case get_tensor h i of
                  Inl err \<Rightarrow> False
                | Inr t \<Rightarrow> \<not> PartialShape_is_static (partial_shape t)) (inputs (h node))"
    | (o) "\<not> is_output (h node)"
          "list_ex (\<lambda>t. \<not> PartialShape_is_static (partial_shape t)) (outputs (h node))"
    by (auto simp: dynamic_port_def)
  then have False
  proof cases
    case i
    then have "inputs (h node) \<noteq> []" by auto
    then have "get_input_size (h node) > 0" by (simp add: get_input_size_def)
    with p input_ports_dynamic [OF i, of 0] show False by auto
  next
    case o
    from o(2) have "outputs (h node) \<noteq> []" by auto
    then have "get_output_size (h node) > 0" by (simp add: get_output_size_def)
    with p o(1) output_ports_dynamic [OF o(2), of "int (get_input_size (h node))"]
    show False by auto
  qed
  then show ?thesis ..
qed

lemma write_layers_dynamic:
  "node \<in> set nodes \<Longrightarrow> dynamic_port h node
     \<Longrightarrow> \<exists>err. write_layers lib exec_graph ids custom_opsets h nodes S bin = Inl err"
proof (induction nodes arbitrary: S bin)
  case Nil
  then show ?case by simp
next
  case (Cons n nodes)
  show ?case
  proof (cases "write_layer lib exec_graph ids custom_opsets h n S bin")
    case (Inl err)
    then show ?thesis by simp
  next
    case (Inr r)
    obtain layer S1 bin1 where r: "r = (layer, S1, bin1)" by (cases r)
    from Inr write_layer_dynamic [of h n lib exec_graph ids custom_opsets S bin]
    have "\<not> dynamic_port h n" by auto
    with Cons.prems have "node \<in> set nodes" by auto
    from Cons.IH [OF this Cons.prems(2), of S1 bin1] obtain err where
      "write_layers lib exec_graph ids custom_opsets h nodes S1 bin1 = Inl err" ..
    with Inr r show ?thesis by simp
  qed
qed

lemma ngfunction_2_irv10_dynamic:
  assumes "resolve_dynamic_shapes lib depth h f = Some (Inr (was_dynamic, h1))"
    and "node \<in> set (get_ordered_ops f)" and "dynamic_port h1 node"
  shows "\<exists>err. ngfunction_2_irv10 lib depth bin h f custom_opsets = Some (Inl err)"
proof -
  from write_layers_dynamic [OF assms(2,3)] obtain err where
    "write_layers lib (is_exec_graph h f) (create_layer_ids f) custom_opsets h1
       (get_ordered_ops f) {||} bin = Inl err" ..
  with assms(1) show ?thesis
    by (simp add: ngfunction_2_irv10_def)
qed


lemma open_resolved_12:
  "resolved_shapes (resolve_dynamic_shapes example_library (Suc 0) open_heap open_function) 12
     = Some [RankStatic [Dimension 0 None]]"
  by code_simp

lemma open_resolved_0:
  "resolved_shapes (resolve_dynamic_shapes example_library (Suc 0) open_heap open_function) 0
     = Some [RankStatic [Dimension 10 (Some 10)]]"
  by code_simp

lemma open_resolved_10:
  "resolved_shapes (resolve_dynamic_shapes example_library (Suc 0) open_heap open_function) 10
     = Some [RankStatic [Dimension 10 (Some 10)]]"
  by code_simp

lemma open_returned:
  "returned (ngfunction_2_irv10 example_library (Suc 0) [] open_heap open_function [])"
  by code_simp

text \<open>
  The claim C7 as stated fails in its second half. In \<open>open_function\<close>, constant folding
  fails on every node, and node 12, in the function of the sub-graph node, has an output
  dimension that is dynamic and has no upper bound. The types of the graph are those that
  inference gives it: the result of that function passes on the output of node 13, a
  vector of one \<open>i64\<close>, which is the output of the sub-graph node and of the result of the
  graph. The shape resolver returns, having put the dimension of the library in the place
  of the dimension of node 12 (and the upper bound 10 in the place of the dimensions of
  the nodes 0 and 10); and the whole call returns: no failure is raised.
\<close>

theorem unbounded_dimension_no_failure:
  "constant_fold example_library open_heap 12 = None
   \<and> map partial_shape (outputs (open_heap 12)) = [RankStatic [Dimension 0 None]]
   \<and> Dimension_is_dynamic (Dimension 0 None)
   \<and> max_bound (Dimension 0 None) = None
   \<and> outputs (open_heap 14) = outputs (open_heap 13)
   \<and> outputs (open_heap 2) = outputs (open_heap 14)
   \<and> outputs (open_heap 3) = outputs (open_heap 2)
   \<and> resolved_shapes (resolve_dynamic_shapes example_library (Suc 0) open_heap open_function) 12
       = Some [RankStatic [Dimension 0 None]]
   \<and> resolved_shapes (resolve_dynamic_shapes example_library (Suc 0) open_heap open_function) 0
       = Some [RankStatic [Dimension 10 (Some 10)]]
   \<and> resolved_shapes (resolve_dynamic_shapes example_library (Suc 0) open_heap open_function) 10
       = Some [RankStatic [Dimension 10 (Some 10)]]
   \<and> returned (ngfunction_2_irv10 example_library (Suc 0) [] open_heap open_function [])"
  using open_resolved_12 open_resolved_0 open_resolved_10 open_returned
  by (simp add: example_library_def open_heap_def Dimension_is_dynamic_def Dimension_is_static_def)

lemma resolve_op_fold_failed:
  assumes "(\<forall>g. node_class (h0 op) \<noteq> SubGraphOp g) \<and> h1 = h0
           \<or> (\<exists>g was_dynamic. node_class (h0 op) = SubGraphOp g
                 \<and> resolve h0 g = Some (Inr (was_dynamic, h1)))"
    and "validate_and_infer_types lib h1 op = Inr h2"
    and "validate_and_infer_types lib h2 clone_op = Inr h"
    and "constant_fold lib h clone_op = None"
  shows "resolve_op lib resolve h0 op clone_op = Some (Inr (fold_failed lib op clone_op h))"
  using assms by (cases "node_class (h0 op)") (auto simp: resolve_op_def)


text \<open>
  Claim C7, as the code has it. When constant folding of a node fails (the last of the
  hypotheses of the second part), the round of the resolver for the node raises no
  failure: it returns the heap of \<open>fold_failed\<close>. In that heap every output of the clone
  and of the node whose shape has a static rank has, dimension by dimension
  (\<open>upper_bound_substituted\<close>): the length of a static dimension; the declared upper
  bound, as a static dimension, of a dynamic dimension that has one; and the dimension
  the library gives for a dynamic dimension with no upper bound. When that dimension is
  dynamic, as the one of nGraph is, the shape of the output is still not static (the
  third part). And whenever, after the resolver, a node of the function that is
  serialized has a port that is written and whose shape is not static, the call fails
  while it writes the layers (the fourth part); the nodes of the function of a sub-graph
  node have no layers.
\<close>

theorem upper_bounds_on_failed_fold:
  "(\<forall>output_id ds.
      output_id < get_output_size (h clone_op)
      \<and> partial_shape (outputs (h clone_op) ! output_id) = RankStatic ds \<longrightarrow>
      (\<exists>ds'. partial_shape (outputs (fold_failed lib op clone_op h clone_op) ! output_id)
               = RankStatic ds'
            \<and> partial_shape (outputs (fold_failed lib op clone_op h op) ! output_id)
               = RankStatic ds'
            \<and> list_all2 (upper_bound_substituted lib) ds ds'))
   \<and> (\<forall>resolve h0 h1 h2.
        ((\<forall>g. node_class (h0 op) \<noteq> SubGraphOp g) \<and> h1 = h0
         \<or> (\<exists>g was_dynamic. node_class (h0 op) = SubGraphOp g
               \<and> resolve h0 g = Some (Inr (was_dynamic, h1))))
        \<and> validate_and_infer_types lib h1 op = Inr h2
        \<and> validate_and_infer_types lib h2 clone_op = Inr h
        \<and> constant_fold lib h clone_op = None \<longrightarrow>
        resolve_op lib resolve h0 op clone_op = Some (Inr (fold_failed lib op clone_op h)))
   \<and> (\<forall>output_id ds d.
        output_id < get_output_size (h clone_op)
        \<and> partial_shape (outputs (h clone_op) ! output_id) = RankStatic ds
        \<and> d \<in> set ds \<and> Dimension_is_dynamic d \<and> max_bound d = None
        \<and> Dimension_is_dynamic (unbounded_max_dimension lib) \<longrightarrow>
        \<not> PartialShape_is_static
            (partial_shape (outputs (fold_failed lib op clone_op h op) ! output_id)))
   \<and> (\<forall>depth bin h0 f custom_opsets was_dynamic h1 node.
        resolve_dynamic_shapes lib depth h0 f = Some (Inr (was_dynamic, h1))
        \<and> node \<in> set (get_ordered_ops f) \<and> dynamic_port h1 node \<longrightarrow>
        (\<exists>err. ngfunction_2_irv10 lib depth bin h0 f custom_opsets = Some (Inl err)))"
proof (intro conjI allI impI)
  fix output_id ds
  assume a: "output_id < get_output_size (h clone_op)
      \<and> partial_shape (outputs (h clone_op) ! output_id) = RankStatic ds"
  from dynamic_to_static_substituted [of lib ds] obtain ds' where
    ds': "dynamic_to_static lib (RankStatic ds) = RankStatic ds'"
    "list_all2 (upper_bound_substituted lib) ds ds'" by blast
  from a fold_failed_outputs [of output_id h clone_op lib op] ds'
  show "\<exists>ds'. partial_shape (outputs (fold_failed lib op clone_op h clone_op) ! output_id)
               = RankStatic ds'
            \<and> partial_shape (outputs (fold_failed lib op clone_op h op) ! output_id)
               = RankStatic ds'
            \<and> list_all2 (upper_bound_substituted lib) ds ds'"
    by (simp add: to_static_def)
next
  fix resolve :: "heap \<Rightarrow> Function \<Rightarrow> (error + bool \<times> heap) option" and h0 h1 h2 :: heap
  assume "((\<forall>g. node_class (h0 op) \<noteq> SubGraphOp g) \<and> h1 = h0
         \<or> (\<exists>g was_dynamic. node_class (h0 op) = SubGraphOp g
               \<and> resolve h0 g = Some (Inr (was_dynamic, h1))))
        \<and> validate_and_infer_types lib h1 op = Inr h2
        \<and> validate_and_infer_types lib h2 clone_op = Inr h
        \<and> constant_fold lib h clone_op = None"
  then show "resolve_op lib resolve h0 op clone_op = Some (Inr (fold_failed lib op clone_op h))"
    by (intro resolve_op_fold_failed) blast+
next
  fix output_id ds d
  assume a: "output_id < get_output_size (h clone_op)
        \<and> partial_shape (outputs (h clone_op) ! output_id) = RankStatic ds
        \<and> d \<in> set ds \<and> Dimension_is_dynamic d \<and> max_bound d = None
        \<and> Dimension_is_dynamic (unbounded_max_dimension lib)"
  then have "\<not> PartialShape_is_static (dynamic_to_static lib (RankStatic ds))"
    by (intro dynamic_to_static_unbounded [of lib d]) simp_all
  with a fold_failed_outputs(2) [of output_id h clone_op lib op]
  show "\<not> PartialShape_is_static
            (partial_shape (outputs (fold_failed lib op clone_op h op) ! output_id))"
    by (simp add: to_static_def)
next
  fix depth bin h0 f custom_opsets was_dynamic h1 node
  assume "resolve_dynamic_shapes lib depth h0 f = Some (Inr (was_dynamic, h1))
        \<and> node \<in> set (get_ordered_ops f) \<and> dynamic_port h1 node"
  then show "\<exists>err. ngfunction_2_irv10 lib depth bin h0 f custom_opsets = Some (Inl err)"
    by (intro ngfunction_2_irv10_dynamic [of lib depth h0 f was_dynamic h1 node]) simp_all
qed

lemma bounds_resolved:
  "case resolve_dynamic_shapes example_library 0 bounds_heap bounds_function of
     Some (Inr (was_dynamic, h1)) \<Rightarrow> was_dynamic \<and> dynamic_port h1 0
   | _ \<Rightarrow> False"
  by code_simp

lemma bounds_failure:
  "case ngfunction_2_irv10 example_library 0 [] bounds_heap bounds_function [] of
     Some (Inl err) \<Rightarrow> err = CheckFailure ''Unsupported dynamic output shape in ''
   | _ \<Rightarrow> False"
  by code_simp

theorem upper_bounds_on_failed_fold_witness:
  "partial_shape (outputs (bounds_heap 1000) ! 0)
     = RankStatic [Dimension 1 (Some 10), Dimension 3 (Some 3), Dimension 2 None]
   \<and> constant_fold example_library bounds_heap 1000 = None
   \<and> resolve_op example_library (\<lambda>h g. None) bounds_heap 0 1000
       = Some (Inr (fold_failed example_library 0 1000 bounds_heap))
   \<and> partial_shape (outputs (fold_failed example_library 0 1000 bounds_heap 1000) ! 0)
       = RankStatic [Dimension 10 (Some 10), Dimension 3 (Some 3), Dimension 0 None]
   \<and> partial_shape (outputs (fold_failed example_library 0 1000 bounds_heap 0) ! 0)
       = RankStatic [Dimension 10 (Some 10), Dimension 3 (Some 3), Dimension 0 None]
   \<and> \<not> PartialShape_is_static
         (partial_shape (outputs (fold_failed example_library 0 1000 bounds_heap 0) ! 0))
   \<and> (\<exists>h1. resolve_dynamic_shapes example_library 0 bounds_heap bounds_function
              = Some (Inr (True, h1))
           \<and> dynamic_port h1 0)
   \<and> ngfunction_2_irv10 example_library 0 [] bounds_heap bounds_function []
       = Some (Inl (CheckFailure ''Unsupported dynamic output shape in ''))"
proof -
  note t = upper_bounds_on_failed_fold [of bounds_heap 1000 example_library 0]
  let ?ds = "[Dimension 1 (Some 10), Dimension 3 (Some 3), Dimension 2 None]"
  have s: "partial_shape (outputs (bounds_heap 1000) ! 0) = RankStatic ?ds"
    by (simp add: bounds_heap_def bounds_node_def typed_node_def)
  have n: "0 < get_output_size (bounds_heap 1000)"
    by (simp add: bounds_heap_def bounds_node_def typed_node_def get_output_size_def)
  from t [THEN conjunct1, THEN spec, THEN spec, THEN mp, OF conjI, OF n s]
  obtain ds' where
    c: "partial_shape (outputs (fold_failed example_library 0 1000 bounds_heap 1000) ! 0)
          = RankStatic ds'"
    and o: "partial_shape (outputs (fold_failed example_library 0 1000 bounds_heap 0) ! 0)
          = RankStatic ds'"
    and l: "list_all2 (upper_bound_substituted example_library) ?ds ds'"
    by blast
  from l have ds': "ds' = [Dimension 10 (Some 10), Dimension 3 (Some 3), Dimension 0 None]"
    by (auto simp: list_all2_Cons1 upper_bound_substituted_def Dimension_is_static_def
          example_library_def)
  have f: "constant_fold example_library bounds_heap 1000 = None"
    by (simp add: example_library_def)
  have v: "validate_and_infer_types example_library bounds_heap 0 = Inr bounds_heap"
    "validate_and_infer_types example_library bounds_heap 1000 = Inr bounds_heap"
    by (simp_all add: example_library_def)
  have k: "(\<forall>g. node_class (bounds_heap 0) \<noteq> SubGraphOp g) \<and> bounds_heap = bounds_heap
         \<or> (\<exists>g was_dynamic. node_class (bounds_heap 0) = SubGraphOp g
               \<and> (\<lambda>h g. None) bounds_heap g = Some (Inr (was_dynamic, bounds_heap)))"
    by (simp add: bounds_heap_def bounds_node_def typed_node_def)
  from t [THEN conjunct2, THEN conjunct1, THEN spec, THEN spec, THEN spec, THEN spec, THEN mp,
      OF conjI, OF k conjI, OF v(1) conjI, OF v(2) f]
  have r: "resolve_op example_library (\<lambda>h g. None) bounds_heap 0 1000
       = Some (Inr (fold_failed example_library 0 1000 bounds_heap))" .
  have d: "Dimension 2 None \<in> set ?ds \<and> Dimension_is_dynamic (Dimension 2 None)
      \<and> max_bound (Dimension 2 None) = None
      \<and> Dimension_is_dynamic (unbounded_max_dimension example_library)"
    by (simp add: Dimension_is_dynamic_def Dimension_is_static_def example_library_def)
  from t [THEN conjunct2, THEN conjunct2, THEN conjunct1, THEN spec, THEN spec, THEN spec,
      THEN mp, OF conjI, OF n conjI, OF s d]
  have u: "\<not> PartialShape_is_static
         (partial_shape (outputs (fold_failed example_library 0 1000 bounds_heap 0) ! 0))" .
  from bounds_resolved obtain was_dynamic h1 where
    b: "resolve_dynamic_shapes example_library 0 bounds_heap bounds_function
          = Some (Inr (was_dynamic, h1))" and w: was_dynamic and p: "dynamic_port h1 0"
    by (auto split: option.splits sum.splits)
  have m: "0 \<in> set (get_ordered_ops bounds_function)"
    by (simp add: bounds_function_def)
  from t [THEN conjunct2, THEN conjunct2, THEN conjunct2, THEN spec, THEN spec, THEN spec,
      THEN spec, THEN spec, THEN spec, THEN spec, THEN spec, THEN mp, OF conjI, OF b conjI,
      OF m p, of "[]" "[]"]
  obtain err where
    e: "ngfunction_2_irv10 example_library 0 [] bounds_heap bounds_function [] = Some (Inl err)" ..
  with bounds_failure have "err = CheckFailure ''Unsupported dynamic output shape in ''"
    by simp
  with e have x: "ngfunction_2_irv10 example_library 0 [] bounds_heap bounds_function []
       = Some (Inl (CheckFailure ''Unsupported dynamic output shape in ''))" by simp
  from b w p have y: "\<exists>h1. resolve_dynamic_shapes example_library 0 bounds_heap bounds_function
              = Some (Inr (True, h1)) \<and> dynamic_port h1 0" by auto
  from s f r c o u x y show ?thesis
    unfolding ds' by blast
qed

end
